theory Spec2Isabelle
  imports Main "HOL-Library.AList"
begin

section \<open>Exceptions\<close>

text \<open>
  Every exception the modelled code can raise is a value. \<open>UserError\<close> stands for
  whatever a user callback raises by itself.
\<close>

datatype error =
    AssertionError
  | AttributeError
  | NotImplementedError
  | TypeError
  | ValueError
  | OSError
  | UserError string

section \<open>stream.py\<close>

text \<open>
  \<^verbatim>\<open>Stream.__init__\<close> sets \<^verbatim>\<open>open_state = False\<close>, but no subclass of the repository
  calls it from its own \<^verbatim>\<open>__init__\<close>: an object that has never been entered has no
  attribute \<^verbatim>\<open>open_state\<close> at all, and \<^verbatim>\<open>is_open()\<close> raises \<^verbatim>\<open>AttributeError\<close> on it.
  The field is therefore optional, \<open>None\<close> being the missing attribute. Subclasses
  are record extensions.
\<close>

record stream =
  open_state :: "bool option"

definition Stream_init :: stream where
  "Stream_init = \<lparr>open_state = Some False\<rparr>"

definition is_open :: "'z stream_scheme \<Rightarrow> error + bool" where
  "is_open s = (case open_state s of None \<Rightarrow> Inl AttributeError | Some b \<Rightarrow> Inr b)"

definition Stream_enter :: "'z stream_scheme \<Rightarrow> 'z stream_scheme" where
  "Stream_enter s = s\<lparr>open_state := Some True\<rparr>"

definition Stream_exit :: "'z stream_scheme \<Rightarrow> 'z stream_scheme" where
  "Stream_exit s = s\<lparr>open_state := Some False\<rparr>"

text \<open>\<^verbatim>\<open>KeyValueWriteStream.write\<close>: only the assertion; nothing is stored.\<close>

definition KeyValueWriteStream_write ::
  "'k \<Rightarrow> 'v \<Rightarrow> 'z stream_scheme \<Rightarrow> error + 'z stream_scheme" where
  "KeyValueWriteStream_write key val s =
     (case open_state s of
        None \<Rightarrow> Inl AttributeError
      | Some b \<Rightarrow> if b then Inr s else Inl AssertionError)"

section \<open>hadoop\_env.py: ShuffleStream\<close>

text \<open>
  \<^verbatim>\<open>shuffle_pair\<close> is a Python \<^verbatim>\<open>dict\<close>, which keeps its keys in the order of their
  first insertion: an association list with distinct keys, where storing under a new key
  appends the entry and storing under an old key replaces the value in place
  (\<^const>\<open>AList.update\<close>).
\<close>

record ('k, 'v) ShuffleStream = stream +
  shuffle_pair :: "('k \<times> 'v list) list"
  write_phase :: bool

definition ShuffleStream_init :: "('k, 'v) ShuffleStream" where
  "ShuffleStream_init = \<lparr>open_state = None, shuffle_pair = [], write_phase = True\<rparr>"

text \<open>
  \<^verbatim>\<open>
  def write(self, key, value):
      if key in self.shuffle_pair:
          self.shuffle_pair[key].append(value)
      else:
          self.shuffle_pair[key] = [value]
  \<close>
  The method overrides \<^verbatim>\<open>KeyValueWriteStream.write\<close> and looks neither at
  \<^verbatim>\<open>open_state\<close> nor at the phase.
\<close>

definition ShuffleStream_write ::
  "'k \<Rightarrow> 'v \<Rightarrow> ('k, 'v) ShuffleStream \<Rightarrow> ('k, 'v) ShuffleStream" where
  "ShuffleStream_write key val s =
     (case map_of (shuffle_pair s) key of
        Some vs \<Rightarrow> s\<lparr>shuffle_pair := AList.update key (vs @ [val]) (shuffle_pair s)\<rparr>
      | None \<Rightarrow> s\<lparr>shuffle_pair := AList.update key [val] (shuffle_pair s)\<rparr>)"

text \<open>
  What \<^verbatim>\<open>__enter__\<close> returns: the stream itself in the write phase, an iterator over
  the items of the dictionary in the read phase. The iterator is given by the items it
  finds when nothing is written while it runs.
\<close>

datatype ('k, 'v) shuffle_handle = Self | Items "('k \<times> 'v list) list"

definition ShuffleStream_enter ::
  "('k, 'v) ShuffleStream \<Rightarrow> ('k, 'v) shuffle_handle \<times> ('k, 'v) ShuffleStream" where
  "ShuffleStream_enter s =
     (let s' = Stream_enter s
      in if write_phase s' then (Self, s') else (Items (shuffle_pair s'), s'))"

definition ShuffleStream_exit :: "('k, 'v) ShuffleStream \<Rightarrow> ('k, 'v) ShuffleStream" where
  "ShuffleStream_exit s =
     (let s' = Stream_exit s
      in if write_phase s' then s'\<lparr>write_phase := False\<rparr> else s'\<lparr>shuffle_pair := []\<rparr>)"

text \<open>A sequence of \<^verbatim>\<open>write\<close> calls, in order.\<close>

fun write_all :: "('k \<times> 'v) list \<Rightarrow> ('k, 'v) ShuffleStream \<Rightarrow> ('k, 'v) ShuffleStream" where
  "write_all [] s = s"
| "write_all ((key, val) # ws) s = write_all ws (ShuffleStream_write key val s)"

text \<open>
  A fresh store used as the pipeline uses it: the write scope is entered, the writes are
  made, the scope is left, and the store is entered again; the result is what the
  second \<^verbatim>\<open>__enter__\<close> returns.
\<close>

definition shuffle_then_read :: "('k \<times> 'v) list \<Rightarrow> ('k, 'v) shuffle_handle" where
  "shuffle_then_read ws =
     (let (h1, s1) = ShuffleStream_enter ShuffleStream_init;
          s2 = write_all ws s1;
          s3 = ShuffleStream_exit s2;
          (h2, s4) = ShuffleStream_enter s3
      in h2)"

text \<open>
  The claims' own words: the values written under a key, in write order; the keys in the
  order of their first write.
\<close>

definition values_written :: "'k \<Rightarrow> ('k \<times> 'v) list \<Rightarrow> 'v list" where
  "values_written key ws = map snd (filter (\<lambda>kv. fst kv = key) ws)"

fun first_writes :: "'k list \<Rightarrow> 'k list" where
  "first_writes [] = []"
| "first_writes (k # ks) = k # removeAll k (first_writes ks)"

section \<open>hadoop\_env.py: HadoopContext\<close>

text \<open>
  A context holds references to its two streams and to the configuration dictionary. The
  streams' states live in the job (below), so that the shuffle store shared by the two
  contexts is one object; the context's own state is its \<^verbatim>\<open>open_state\<close> and the
  address of the dictionary.
\<close>

record HadoopContext = stream +
  context_config :: nat

text \<open>
  \<^verbatim>\<open>
  def write(self, key, value):
      assert self.key_value_output_stream.is_open()
      self.key_value_output_stream.write(key, value)
  \<close>
  The wrapped stream is any object with \<^verbatim>\<open>is_open\<close> and \<^verbatim>\<open>write\<close>; its
  \<^verbatim>\<open>write\<close> method is the first argument.
\<close>

definition HadoopContext_write ::
  "('k \<Rightarrow> 'v \<Rightarrow> 'z stream_scheme \<Rightarrow> error + 'z stream_scheme) \<Rightarrow>
   'k \<Rightarrow> 'v \<Rightarrow> 'z stream_scheme \<Rightarrow> error + 'z stream_scheme" where
  "HadoopContext_write stream_write key val out =
     (case is_open out of
        Inl e \<Rightarrow> Inl e
      | Inr b \<Rightarrow> if b then stream_write key val out else Inl AssertionError)"

definition get_configuration :: "HadoopContext \<Rightarrow> nat" where
  "get_configuration c = context_config c"

section \<open>hadoop\_env.py: HadoopInput\<close>

text \<open>
  The files are the environment's: \<open>read_file p\<close> is the list of the lines that
  iterating over \<^verbatim>\<open>open(p, "r")\<close> gives, or \<open>None\<close> when \<^verbatim>\<open>open\<close> raises;
  \<open>can_write p\<close> says whether \<^verbatim>\<open>open(p, "w")\<close> succeeds.
\<close>

record 'l os_env =
  read_file :: "string \<Rightarrow> 'l list option"
  can_write :: "string \<Rightarrow> bool"

record ('l, 'r) HadoopInput = stream +
  paths :: "string list option"
  format_func :: "int \<Rightarrow> 'l \<Rightarrow> 'r"

text \<open>
  \<^verbatim>\<open>str.strip()\<close> belongs to the interpreter: the set of characters it removes is the
  parameter \<open>isspace\<close>.
\<close>

definition strip :: "('c \<Rightarrow> bool) \<Rightarrow> 'c list \<Rightarrow> 'c list" where
  "strip isspace line = rev (dropWhile isspace (rev (dropWhile isspace line)))"

definition default_format_func :: "('c \<Rightarrow> bool) \<Rightarrow> int \<Rightarrow> 'c list \<Rightarrow> int \<times> 'c list" where
  "default_format_func isspace line_id line = (line_id, strip isspace line)"

definition HadoopInput_init :: "('c \<Rightarrow> bool) \<Rightarrow> ('c list, int \<times> 'c list) HadoopInput" where
  "HadoopInput_init isspace =
     \<lparr>open_state = None, paths = None, format_func = default_format_func isspace\<rparr>"

definition set_format_func ::
  "(int \<Rightarrow> 'l \<Rightarrow> 'r) \<Rightarrow> ('l, 'q) HadoopInput \<Rightarrow> ('l, 'r) HadoopInput" where
  "set_format_func f s = \<lparr>open_state = open_state s, paths = paths s, format_func = f\<rparr>"

text \<open>
  A generator that ends is the list of what it yields and the exception that ends it, if
  one does.
  \<^verbatim>\<open>
  current_line = 0
  for path in self.paths:
      with open(path, "r", encoding="utf-8") as file:
          for line in file:
              yield self.format_func(current_line, line)
              current_line += 1
  \<close>
  \<open>lines_loop\<close> is the inner loop (it returns the counter as well), \<open>paths_loop\<close>
  the outer one.
\<close>

type_synonym 'r generator = "'r list \<times> error option"

fun lines_loop :: "(int \<Rightarrow> 'l \<Rightarrow> 'r) \<Rightarrow> int \<Rightarrow> 'l list \<Rightarrow> 'r list \<times> int" where
  "lines_loop f current_line [] = ([], current_line)"
| "lines_loop f current_line (line # rest) =
     (let (ys, n) = lines_loop f (current_line + 1) rest
      in (f current_line line # ys, n))"

fun paths_loop ::
  "(string \<Rightarrow> 'l list option) \<Rightarrow> (int \<Rightarrow> 'l \<Rightarrow> 'r) \<Rightarrow> int \<Rightarrow> string list \<Rightarrow> 'r generator" where
  "paths_loop rd f current_line [] = ([], None)"
| "paths_loop rd f current_line (p # ps) =
     (case rd p of
        None \<Rightarrow> ([], Some OSError)
      | Some ls \<Rightarrow>
          (let (ys, n) = lines_loop f current_line ls;
               (zs, e) = paths_loop rd f n ps
           in (ys @ zs, e)))"

definition get_assembled_input_stream ::
  "'l os_env \<Rightarrow> ('l, 'r) HadoopInput \<Rightarrow> 'r generator" where
  "get_assembled_input_stream env s =
     (case paths s of
        None \<Rightarrow> ([], Some TypeError)
      | Some ps \<Rightarrow> paths_loop (read_file env) (format_func s) 0 ps)"

definition HadoopInput_enter ::
  "'l os_env \<Rightarrow> ('l, 'r) HadoopInput \<Rightarrow> 'r generator \<times> ('l, 'r) HadoopInput" where
  "HadoopInput_enter env s =
     (let s' = Stream_enter s in (get_assembled_input_stream env s', s'))"

definition HadoopInput_exit :: "('l, 'r) HadoopInput \<Rightarrow> ('l, 'r) HadoopInput" where
  "HadoopInput_exit s = Stream_exit s"

section \<open>hadoop\_env.py: HadoopOutput\<close>

text \<open>
  The file object behind the sink: whether it is closed, and the strings written to it.
  The field \<open>out_format_func\<close> is \<^verbatim>\<open>HadoopOutput.format_func\<close>.
\<close>

record 'o file_object =
  file_closed :: bool
  file_written :: "'o list"

record ('a, 'o) HadoopOutput = stream +
  path :: "string option"
  out_format_func :: "'a \<Rightarrow> 'a \<Rightarrow> 'o"
  file_stream :: "'o file_object option"

definition HadoopOutput_init :: "('a \<Rightarrow> 'a \<Rightarrow> 'o) \<Rightarrow> ('a, 'o) HadoopOutput" where
  "HadoopOutput_init default_format =
     \<lparr>open_state = None, path = None, out_format_func = default_format, file_stream = None\<rparr>"

definition HadoopOutput_write ::
  "'a \<Rightarrow> 'a \<Rightarrow> ('a, 'o) HadoopOutput \<Rightarrow> error + ('a, 'o) HadoopOutput" where
  "HadoopOutput_write key val s =
     (case file_stream s of
        None \<Rightarrow> Inl AssertionError
      | Some f \<Rightarrow>
          (case is_open s of
             Inl e \<Rightarrow> Inl e
           | Inr b \<Rightarrow>
               if \<not> b then Inl AssertionError
               else if file_closed f then Inl ValueError
               else Inr (s\<lparr>file_stream :=
                           Some (f\<lparr>file_written := file_written f @ [out_format_func s key val]\<rparr>)\<rparr>)))"

definition HadoopOutput_enter ::
  "'l os_env \<Rightarrow> ('a, 'o) HadoopOutput \<Rightarrow> error option \<times> ('a, 'o) HadoopOutput" where
  "HadoopOutput_enter env s =
     (let s' = Stream_enter s
      in case path s' of
           None \<Rightarrow> (Some TypeError, s')
         | Some p \<Rightarrow>
             if can_write env p
             then (None, s'\<lparr>file_stream := Some \<lparr>file_closed = False, file_written = []\<rparr>\<rparr>)
             else (Some OSError, s'))"

definition HadoopOutput_exit ::
  "('a, 'o) HadoopOutput \<Rightarrow> error option \<times> ('a, 'o) HadoopOutput" where
  "HadoopOutput_exit s =
     (let s' = Stream_exit s
      in case file_stream s' of
           None \<Rightarrow> (Some AttributeError, s')
         | Some f \<Rightarrow> (None, s'\<lparr>file_stream := Some (f\<lparr>file_closed := True\<rparr>)\<rparr>))"

section \<open>hadoop\_env.py: Mapper and Reducer\<close>

text \<open>
  User code is given by what it does to the engine. A hook is a method of the mapper (or
  reducer) object: from the object's state and the hook's arguments it gives the
  object's new state and the calls it makes, in order: \<open>Write k v\<close> is
  \<^verbatim>\<open>context.write(k, v)\<close>, \<open>SetConfig k v\<close> is
  \<^verbatim>\<open>context.get_configuration()[k] = v\<close>, and \<open>Raise e\<close> raises \<open>e\<close>, which ends the
  hook. An exception of \<^verbatim>\<open>context.write\<close> is not caught by the hook.
\<close>

datatype 'a action = Write 'a 'a | SetConfig 'a 'a | Raise error

record ('u, 'a) Mapper =
  mapper_self :: 'u
  mapper_setup :: "'u \<Rightarrow> 'u \<times> 'a action list"
  mapper_map :: "'u \<Rightarrow> 'a \<Rightarrow> 'a \<Rightarrow> 'u \<times> 'a action list"
  mapper_cleanup :: "'u \<Rightarrow> 'u \<times> 'a action list"

record ('w, 'a) Reducer =
  reducer_self :: 'w
  reducer_setup :: "'w \<Rightarrow> 'w \<times> 'a action list"
  reducer_reduce :: "'w \<Rightarrow> 'a \<Rightarrow> 'a list \<Rightarrow> 'w \<times> 'a action list"
  reducer_cleanup :: "'w \<Rightarrow> 'w \<times> 'a action list"

text \<open>The base classes: \<^verbatim>\<open>setup\<close> and \<^verbatim>\<open>cleanup\<close> return, \<^verbatim>\<open>map\<close> and \<^verbatim>\<open>reduce\<close> raise.\<close>

definition Mapper_init :: "'u \<Rightarrow> ('u, 'a) Mapper" where
  "Mapper_init u =
     \<lparr>mapper_self = u,
      mapper_setup = (\<lambda>u. (u, [])),
      mapper_map = (\<lambda>u key val. (u, [Raise NotImplementedError])),
      mapper_cleanup = (\<lambda>u. (u, []))\<rparr>"

definition Reducer_init :: "'w \<Rightarrow> ('w, 'a) Reducer" where
  "Reducer_init w =
     \<lparr>reducer_self = w,
      reducer_setup = (\<lambda>w. (w, [])),
      reducer_reduce = (\<lambda>w key vals. (w, [Raise NotImplementedError])),
      reducer_cleanup = (\<lambda>w. (w, []))\<rparr>"

section \<open>hadoop\_env.py: HadoopJob\<close>

text \<open>
  The dictionaries of the interpreter are objects in a store, addressed by their index:
  \<open>dict_store\<close>. The job's \<^verbatim>\<open>config\<close> is the address of a dictionary, and so is each
  context's. The job owns the states of the three streams; the shuffle store is created
  by \<^verbatim>\<open>__init__\<close> and never rebound, so its field is not optional. The other
  attributes are \<open>None\<close> until they are set.
\<close>

record ('u, 'w, 'l, 'a, 'o) HadoopJob =
  dict_store :: "('a \<times> 'a) list list"
  config :: nat
  mapper :: "('u, 'a) Mapper option"
  reducer :: "('w, 'a) Reducer option"
  input_stream :: "('l, 'a \<times> 'a) HadoopInput option"
  shuffle_stream :: "('a, 'a) ShuffleStream"
  output_stream :: "('a, 'o) HadoopOutput option"
  map_context :: "HadoopContext option"
  reduce_context :: "HadoopContext option"
  successful :: bool

text \<open>\<^verbatim>\<open>d.update(other)\<close>: every item of \<open>other\<close> is stored in \<open>d\<close>, in order.\<close>

definition dict_update :: "('a \<times> 'b) list \<Rightarrow> ('a \<times> 'b) list \<Rightarrow> ('a \<times> 'b) list" where
  "dict_update other d = fold (\<lambda>(k, v). AList.update k v) other d"

text \<open>\<^verbatim>\<open>d[k] = v\<close> on the dictionary at address \<open>r\<close>.\<close>

definition dict_setitem ::
  "nat \<Rightarrow> 'a \<Rightarrow> 'b \<Rightarrow> ('a \<times> 'b) list list \<Rightarrow> ('a \<times> 'b) list list" where
  "dict_setitem r k v store = store[r := AList.update k v (store ! r)]"

text \<open>
  \<^verbatim>\<open>HadoopJob(config)\<close>, in a store that holds the caller's dictionaries:
  \<^verbatim>\<open>self.config = dict()\<close> is a new object, at the first free address, and
  \<^verbatim>\<open>self.config.update(config)\<close> copies the items of the argument into it.
\<close>

definition HadoopJob_init ::
  "('a \<times> 'a) list list \<Rightarrow> nat option \<Rightarrow> ('u, 'w, 'l, 'a, 'o) HadoopJob" where
  "HadoopJob_init store cfg =
     \<lparr>dict_store =
        store @ [case cfg of None \<Rightarrow> [] | Some c \<Rightarrow> dict_update (store ! c) []],
      config = length store,
      mapper = None,
      reducer = None,
      input_stream = None,
      shuffle_stream = ShuffleStream_init,
      output_stream = None,
      map_context = None,
      reduce_context = None,
      successful = False\<rparr>"

definition set_mapper ::
  "('u, 'a) Mapper \<Rightarrow> ('u, 'w, 'l, 'a, 'o) HadoopJob \<Rightarrow> ('u, 'w, 'l, 'a, 'o) HadoopJob" where
  "set_mapper m j = j\<lparr>mapper := Some m\<rparr>"

definition set_reducer ::
  "('w, 'a) Reducer \<Rightarrow> ('u, 'w, 'l, 'a, 'o) HadoopJob \<Rightarrow> ('u, 'w, 'l, 'a, 'o) HadoopJob" where
  "set_reducer r j = j\<lparr>reducer := Some r\<rparr>"

definition HadoopContext_init :: "nat \<Rightarrow> HadoopContext" where
  "HadoopContext_init cfg = \<lparr>open_state = None, context_config = cfg\<rparr>"

definition set_input_stream ::
  "('l, 'a \<times> 'a) HadoopInput \<Rightarrow> ('u, 'w, 'l, 'a, 'o) HadoopJob \<Rightarrow>
   ('u, 'w, 'l, 'a, 'o) HadoopJob" where
  "set_input_stream s j =
     j\<lparr>input_stream := Some s, map_context := Some (HadoopContext_init (config j))\<rparr>"

definition set_output_stream ::
  "('a, 'o) HadoopOutput \<Rightarrow> ('u, 'w, 'l, 'a, 'o) HadoopJob \<Rightarrow>
   ('u, 'w, 'l, 'a, 'o) HadoopJob" where
  "set_output_stream s j =
     j\<lparr>output_stream := Some s, reduce_context := Some (HadoopContext_init (config j))\<rparr>"

text \<open>
  \<^verbatim>\<open>__start_check\<close>. The assertions on \<^verbatim>\<open>config\<close> and \<^verbatim>\<open>shuffle_stream\<close> cannot fail:
  \<^verbatim>\<open>__init__\<close> sets both and nothing rebinds them.
\<close>

definition start_check :: "('u, 'w, 'l, 'a, 'o) HadoopJob \<Rightarrow> error option" where
  "start_check j =
     (if mapper j = None then Some AssertionError
      else if reducer j = None then Some AssertionError
      else if input_stream j = None then Some AssertionError
      else if output_stream j = None then Some AssertionError
      else if map_context j = None then Some AssertionError
      else if reduce_context j = None then Some AssertionError
      else None)"

text \<open>
  Statements in sequence: \<open>and_then r f\<close> goes on with \<open>f\<close> when the statement before
  returned, and lets its exception through otherwise. The state is kept in both cases:
  what was mutated before an exception stays mutated.
\<close>

definition and_then ::
  "error option \<times> 's \<Rightarrow> ('s \<Rightarrow> error option \<times> 's) \<Rightarrow> error option \<times> 's" where
  "and_then r f = (case r of (Some e, s) \<Rightarrow> (Some e, s) | (None, s) \<Rightarrow> f s)"

text \<open>
  \<^verbatim>\<open>with ctx as h: body\<close>. When \<^verbatim>\<open>__enter__\<close> raises, \<^verbatim>\<open>__exit__\<close> is not called. Otherwise
  \<^verbatim>\<open>__exit__\<close> runs after the body, whether the body raised or not; it returns
  \<^verbatim>\<open>None\<close> in this repository, so the body's exception goes on, unless \<^verbatim>\<open>__exit__\<close>
  raises one itself.
\<close>

definition with_scope ::
  "(error + 'h) \<times> 's \<Rightarrow> ('h \<Rightarrow> 's \<Rightarrow> error option \<times> 's) \<Rightarrow> ('s \<Rightarrow> error option \<times> 's) \<Rightarrow>
   error option \<times> 's" where
  "with_scope entered body exit_scope =
     (case entered of
        (Inl e, s) \<Rightarrow> (Some e, s)
      | (Inr h, s) \<Rightarrow>
          (let (r, s1) = body h s;
               (x, s2) = exit_scope s1
           in case x of Some e' \<Rightarrow> (Some e', s2) | None \<Rightarrow> (r, s2)))"

type_synonym ('u, 'w, 'l, 'a, 'o) job_step =
  "('u, 'w, 'l, 'a, 'o) HadoopJob \<Rightarrow> error option \<times> ('u, 'w, 'l, 'a, 'o) HadoopJob"

text \<open>
  \<^verbatim>\<open>HadoopContext.write\<close> on the job's two contexts: the map context writes to the shuffle
  store, the reduce context to the output stream.
\<close>

definition map_context_write :: "'a \<Rightarrow> 'a \<Rightarrow> ('u, 'w, 'l, 'a, 'o) job_step" where
  "map_context_write key val j =
     (case HadoopContext_write (\<lambda>k v s. Inr (ShuffleStream_write k v s)) key val
             (shuffle_stream j) of
        Inl e \<Rightarrow> (Some e, j)
      | Inr s \<Rightarrow> (None, j\<lparr>shuffle_stream := s\<rparr>))"

definition reduce_context_write :: "'a \<Rightarrow> 'a \<Rightarrow> ('u, 'w, 'l, 'a, 'o) job_step" where
  "reduce_context_write key val j =
     (case output_stream j of
        None \<Rightarrow> (Some AttributeError, j)
      | Some out \<Rightarrow>
          (case HadoopContext_write HadoopOutput_write key val out of
             Inl e \<Rightarrow> (Some e, j)
           | Inr s \<Rightarrow> (None, j\<lparr>output_stream := Some s\<rparr>)))"

text \<open>
  The calls of a hook, made one after the other on the context the hook was given:
  \<open>ctx\<close> reads that context in the job, \<open>wr\<close> is its \<^verbatim>\<open>write\<close>.
\<close>

fun run_actions ::
  "(('u, 'w, 'l, 'a, 'o) HadoopJob \<Rightarrow> HadoopContext option) \<Rightarrow>
   ('a \<Rightarrow> 'a \<Rightarrow> ('u, 'w, 'l, 'a, 'o) job_step) \<Rightarrow> 'a action list \<Rightarrow>
   ('u, 'w, 'l, 'a, 'o) job_step" where
  "run_actions ctx wr [] j = (None, j)"
| "run_actions ctx wr (Write k v # acts) j = and_then (wr k v j) (run_actions ctx wr acts)"
| "run_actions ctx wr (SetConfig k v # acts) j =
     (case ctx j of
        None \<Rightarrow> (Some AttributeError, j)
      | Some c \<Rightarrow>
          run_actions ctx wr acts
            (j\<lparr>dict_store := dict_setitem (get_configuration c) k v (dict_store j)\<rparr>))"
| "run_actions ctx wr (Raise e # acts) j = (Some e, j)"

definition call_mapper_setup :: "('u, 'w, 'l, 'a, 'o) job_step" where
  "call_mapper_setup j =
     (case mapper j of
        None \<Rightarrow> (Some AttributeError, j)
      | Some m \<Rightarrow>
          (let (u, acts) = mapper_setup m (mapper_self m)
           in run_actions map_context map_context_write acts
                (j\<lparr>mapper := Some (m\<lparr>mapper_self := u\<rparr>)\<rparr>)))"

definition call_mapper_map :: "'a \<Rightarrow> 'a \<Rightarrow> ('u, 'w, 'l, 'a, 'o) job_step" where
  "call_mapper_map key val j =
     (case mapper j of
        None \<Rightarrow> (Some AttributeError, j)
      | Some m \<Rightarrow>
          (let (u, acts) = mapper_map m (mapper_self m) key val
           in run_actions map_context map_context_write acts
                (j\<lparr>mapper := Some (m\<lparr>mapper_self := u\<rparr>)\<rparr>)))"

definition call_mapper_cleanup :: "('u, 'w, 'l, 'a, 'o) job_step" where
  "call_mapper_cleanup j =
     (case mapper j of
        None \<Rightarrow> (Some AttributeError, j)
      | Some m \<Rightarrow>
          (let (u, acts) = mapper_cleanup m (mapper_self m)
           in run_actions map_context map_context_write acts
                (j\<lparr>mapper := Some (m\<lparr>mapper_self := u\<rparr>)\<rparr>)))"

definition call_reducer_setup :: "('u, 'w, 'l, 'a, 'o) job_step" where
  "call_reducer_setup j =
     (case reducer j of
        None \<Rightarrow> (Some AttributeError, j)
      | Some r \<Rightarrow>
          (let (w, acts) = reducer_setup r (reducer_self r)
           in run_actions reduce_context reduce_context_write acts
                (j\<lparr>reducer := Some (r\<lparr>reducer_self := w\<rparr>)\<rparr>)))"

definition call_reducer_reduce :: "'a \<Rightarrow> 'a list \<Rightarrow> ('u, 'w, 'l, 'a, 'o) job_step" where
  "call_reducer_reduce key vals j =
     (case reducer j of
        None \<Rightarrow> (Some AttributeError, j)
      | Some r \<Rightarrow>
          (let (w, acts) = reducer_reduce r (reducer_self r) key vals
           in run_actions reduce_context reduce_context_write acts
                (j\<lparr>reducer := Some (r\<lparr>reducer_self := w\<rparr>)\<rparr>)))"

definition call_reducer_cleanup :: "('u, 'w, 'l, 'a, 'o) job_step" where
  "call_reducer_cleanup j =
     (case reducer j of
        None \<Rightarrow> (Some AttributeError, j)
      | Some r \<Rightarrow>
          (let (w, acts) = reducer_cleanup r (reducer_self r)
           in run_actions reduce_context reduce_context_write acts
                (j\<lparr>reducer := Some (r\<lparr>reducer_self := w\<rparr>)\<rparr>)))"

text \<open>
  \<^verbatim>\<open>HadoopContext.__enter__\<close> and \<^verbatim>\<open>__exit__\<close> of the map context (input stream and
  shuffle store) and of the reduce context (shuffle store and output stream):
  \<^verbatim>\<open>
  def __enter__(self):
      super().__enter__()
      self.key_value_output_stream.__enter__()
      return self.key_value_input_stream.__enter__()

  def __exit__(self, exc_type, exc_val, exc_tb):
      super().__exit__(exc_type, exc_val, exc_tb)
      self.key_value_input_stream.__exit__(exc_type, exc_val, exc_tb)
      self.key_value_output_stream.__exit__(exc_type, exc_val, exc_tb)
  \<close>
\<close>

definition map_context_enter ::
  "'l os_env \<Rightarrow> ('u, 'w, 'l, 'a, 'o) HadoopJob \<Rightarrow>
   (error + ('a \<times> 'a) generator) \<times> ('u, 'w, 'l, 'a, 'o) HadoopJob" where
  "map_context_enter env j =
     (case map_context j of
        None \<Rightarrow> (Inl AttributeError, j)
      | Some c \<Rightarrow>
          (let j1 = j\<lparr>map_context := Some (Stream_enter c)\<rparr>;
               j2 = j1\<lparr>shuffle_stream := snd (ShuffleStream_enter (shuffle_stream j1))\<rparr>
           in case input_stream j2 of
                None \<Rightarrow> (Inl AttributeError, j2)
              | Some i \<Rightarrow>
                  (let (gen, i') = HadoopInput_enter env i
                   in (Inr gen, j2\<lparr>input_stream := Some i'\<rparr>))))"

definition map_context_exit :: "('u, 'w, 'l, 'a, 'o) job_step" where
  "map_context_exit j =
     (case map_context j of
        None \<Rightarrow> (Some AttributeError, j)
      | Some c \<Rightarrow>
          (let j1 = j\<lparr>map_context := Some (Stream_exit c)\<rparr>
           in case input_stream j1 of
                None \<Rightarrow> (Some AttributeError, j1)
              | Some i \<Rightarrow>
                  (let j2 = j1\<lparr>input_stream := Some (HadoopInput_exit i)\<rparr>
                   in (None, j2\<lparr>shuffle_stream := ShuffleStream_exit (shuffle_stream j2)\<rparr>))))"

definition reduce_context_enter ::
  "'l os_env \<Rightarrow> ('u, 'w, 'l, 'a, 'o) HadoopJob \<Rightarrow>
   (error + ('a, 'a) shuffle_handle) \<times> ('u, 'w, 'l, 'a, 'o) HadoopJob" where
  "reduce_context_enter env j =
     (case reduce_context j of
        None \<Rightarrow> (Inl AttributeError, j)
      | Some c \<Rightarrow>
          (let j1 = j\<lparr>reduce_context := Some (Stream_enter c)\<rparr>
           in case output_stream j1 of
                None \<Rightarrow> (Inl AttributeError, j1)
              | Some out \<Rightarrow>
                  (case HadoopOutput_enter env out of
                     (Some e, out') \<Rightarrow> (Inl e, j1\<lparr>output_stream := Some out'\<rparr>)
                   | (None, out') \<Rightarrow>
                       (let j2 = j1\<lparr>output_stream := Some out'\<rparr>;
                            (h, s) = ShuffleStream_enter (shuffle_stream j2)
                        in (Inr h, j2\<lparr>shuffle_stream := s\<rparr>)))))"

definition reduce_context_exit :: "('u, 'w, 'l, 'a, 'o) job_step" where
  "reduce_context_exit j =
     (case reduce_context j of
        None \<Rightarrow> (Some AttributeError, j)
      | Some c \<Rightarrow>
          (let j1 = j\<lparr>reduce_context := Some (Stream_exit c)\<rparr>;
               j2 = j1\<lparr>shuffle_stream := ShuffleStream_exit (shuffle_stream j1)\<rparr>
           in case output_stream j2 of
                None \<Rightarrow> (Some AttributeError, j2)
              | Some out \<Rightarrow>
                  (let (x, out') = HadoopOutput_exit out
                   in (x, j2\<lparr>output_stream := Some out'\<rparr>))))"

text \<open>
  The two loops of \<^verbatim>\<open>start_job\<close>. A generator that ends with an exception raises it in
  the \<^verbatim>\<open>for\<close> statement, after the records it has yielded were processed. In the
  write phase the shuffle store's \<^verbatim>\<open>__enter__\<close> returns the store, which is not
  iterable.
\<close>

fun map_loop :: "('a \<times> 'a) list \<Rightarrow> ('u, 'w, 'l, 'a, 'o) job_step" where
  "map_loop [] j = (None, j)"
| "map_loop ((key, val) # rest) j = and_then (call_mapper_map key val j) (map_loop rest)"

fun reduce_loop :: "('a \<times> 'a list) list \<Rightarrow> ('u, 'w, 'l, 'a, 'o) job_step" where
  "reduce_loop [] j = (None, j)"
| "reduce_loop ((key, vals) # rest) j =
     and_then (call_reducer_reduce key vals j) (reduce_loop rest)"

definition map_body :: "('a \<times> 'a) generator \<Rightarrow> ('u, 'w, 'l, 'a, 'o) job_step" where
  "map_body opened_map_context j =
     and_then
       (and_then
          (and_then (call_mapper_setup j) (map_loop (fst opened_map_context)))
          (\<lambda>j'. (snd opened_map_context, j')))
       call_mapper_cleanup"

definition reduce_body :: "('a, 'a) shuffle_handle \<Rightarrow> ('u, 'w, 'l, 'a, 'o) job_step" where
  "reduce_body opened_reduce_context j =
     and_then
       (and_then (call_reducer_setup j)
          (case opened_reduce_context of
             Self \<Rightarrow> (\<lambda>j'. (Some TypeError, j'))
           | Items groups \<Rightarrow> reduce_loop groups))
       call_reducer_cleanup"

definition map_phase :: "'l os_env \<Rightarrow> ('u, 'w, 'l, 'a, 'o) job_step" where
  "map_phase env j = with_scope (map_context_enter env j) map_body map_context_exit"

definition reduce_phase :: "'l os_env \<Rightarrow> ('u, 'w, 'l, 'a, 'o) job_step" where
  "reduce_phase env j = with_scope (reduce_context_enter env j) reduce_body reduce_context_exit"

text \<open>
  \<^verbatim>\<open>
  def start_job(self):
      self.__start_check()
      with self.map_context as opened_map_context: ...
      with self.reduce_context as opened_reduce_context: ...
      self.successful = True
  \<close>
\<close>

definition start_job :: "'l os_env \<Rightarrow> ('u, 'w, 'l, 'a, 'o) job_step" where
  "start_job env j =
     (case start_check j of
        Some e \<Rightarrow> (Some e, j)
      | None \<Rightarrow>
          and_then (and_then (map_phase env j) (reduce_phase env))
            (\<lambda>j'. (None, j'\<lparr>successful := True\<rparr>)))"

definition is_successful :: "('u, 'w, 'l, 'a, 'o) HadoopJob \<Rightarrow> bool" where
  "is_successful j = successful j"

section \<open>What hooks do and what they leave alone\<close>

text \<open>
  Two properties of the calls a hook makes: \<open>quiet\<close>, when it neither writes to its
  context nor raises; \<open>config_free\<close>, when it does not assign into the configuration
  dictionary.
\<close>

fun quiet :: "'a action list \<Rightarrow> bool" where
  "quiet [] = True"
| "quiet (SetConfig k v # acts) = quiet acts"
| "quiet (Write k v # acts) = False"
| "quiet (Raise e # acts) = False"

fun config_free :: "'a action list \<Rightarrow> bool" where
  "config_free [] = True"
| "config_free (SetConfig k v # acts) = False"
| "config_free (Write k v # acts) = config_free acts"
| "config_free (Raise e # acts) = config_free acts"

text \<open>The configuration assignments of a list of calls, made on the dictionary at \<open>r\<close>.\<close>

fun config_writes ::
  "nat \<Rightarrow> 'a action list \<Rightarrow> ('a \<times> 'a) list list \<Rightarrow> ('a \<times> 'a) list list" where
  "config_writes r [] store = store"
| "config_writes r (SetConfig k v # acts) store = config_writes r acts (dict_setitem r k v store)"
| "config_writes r (Write k v # acts) store = config_writes r acts store"
| "config_writes r (Raise e # acts) store = config_writes r acts store"

text \<open>
  The methods of the job's mapper and reducer, without the objects' states: running the
  job changes the states only.
\<close>

definition hooks_of ::
  "('u, 'w, 'l, 'a, 'o) HadoopJob \<Rightarrow>
   (('u \<Rightarrow> 'u \<times> 'a action list) \<times> ('u \<Rightarrow> 'a \<Rightarrow> 'a \<Rightarrow> 'u \<times> 'a action list) \<times>
    ('u \<Rightarrow> 'u \<times> 'a action list)) option \<times>
   (('w \<Rightarrow> 'w \<times> 'a action list) \<times> ('w \<Rightarrow> 'a \<Rightarrow> 'a list \<Rightarrow> 'w \<times> 'a action list) \<times>
    ('w \<Rightarrow> 'w \<times> 'a action list)) option" where
  "hooks_of j =
     (map_option (\<lambda>m. (mapper_setup m, mapper_map m, mapper_cleanup m)) (mapper j),
      map_option (\<lambda>r. (reducer_setup r, reducer_reduce r, reducer_cleanup r)) (reducer j))"

text \<open>
  A view \<open>g\<close> of the job that the hooks' calls cannot change: it does not depend on the
  dictionaries, on the shuffle store, on the output stream or on the states of the mapper
  and reducer objects. A view that entering and leaving a context cannot change does not
  depend on the contexts or on the three streams.
\<close>

definition hooks_leave :: "(('u, 'w, 'l, 'a, 'o) HadoopJob \<Rightarrow> 'x) \<Rightarrow> bool" where
  "hooks_leave g \<longleftrightarrow>
     (\<forall>j x. g (j\<lparr>dict_store := x\<rparr>) = g j) \<and>
     (\<forall>j x. g (j\<lparr>shuffle_stream := x\<rparr>) = g j) \<and>
     (\<forall>j x. g (j\<lparr>output_stream := x\<rparr>) = g j) \<and>
     (\<forall>j m u. mapper j = Some m \<longrightarrow> g (j\<lparr>mapper := Some (m\<lparr>mapper_self := u\<rparr>)\<rparr>) = g j) \<and>
     (\<forall>j r w. reducer j = Some r \<longrightarrow> g (j\<lparr>reducer := Some (r\<lparr>reducer_self := w\<rparr>)\<rparr>) = g j)"

definition scopes_leave :: "(('u, 'w, 'l, 'a, 'o) HadoopJob \<Rightarrow> 'x) \<Rightarrow> bool" where
  "scopes_leave g \<longleftrightarrow>
     (\<forall>j x. g (j\<lparr>map_context := x\<rparr>) = g j) \<and>
     (\<forall>j x. g (j\<lparr>reduce_context := x\<rparr>) = g j) \<and>
     (\<forall>j x. g (j\<lparr>input_stream := x\<rparr>) = g j) \<and>
     (\<forall>j x. g (j\<lparr>shuffle_stream := x\<rparr>) = g j) \<and>
     (\<forall>j x. g (j\<lparr>output_stream := x\<rparr>) = g j)"

text \<open>
  The hooks of a job make no assignment into the configuration, whatever their arguments;
  and a later state \<open>s\<close> of the job \<open>j\<close> has the configuration of \<open>j\<close>: the same
  dictionaries in the store, the same address in the job and in both contexts, the same
  hooks.
\<close>

definition config_free_hooks :: "('u, 'w, 'l, 'a, 'o) HadoopJob \<Rightarrow> bool" where
  "config_free_hooks j \<longleftrightarrow>
     (\<forall>m. mapper j = Some m \<longrightarrow>
        (\<forall>u. config_free (snd (mapper_setup m u))) \<and>
        (\<forall>u k v. config_free (snd (mapper_map m u k v))) \<and>
        (\<forall>u. config_free (snd (mapper_cleanup m u)))) \<and>
     (\<forall>r. reducer j = Some r \<longrightarrow>
        (\<forall>w. config_free (snd (reducer_setup r w))) \<and>
        (\<forall>w k vs. config_free (snd (reducer_reduce r w k vs))) \<and>
        (\<forall>w. config_free (snd (reducer_cleanup r w))))"

definition config_kept ::
  "('u, 'w, 'l, 'a, 'o) HadoopJob \<Rightarrow> ('u, 'w, 'l, 'a, 'o) HadoopJob \<Rightarrow> bool" where
  "config_kept j s \<longleftrightarrow>
     hooks_of s = hooks_of j \<and> dict_store s = dict_store j \<and> config s = config j \<and>
     map_option get_configuration (map_context s) =
       map_option get_configuration (map_context j) \<and>
     map_option get_configuration (reduce_context s) =
       map_option get_configuration (reduce_context j)"

section \<open>Concrete jobs\<close>

text \<open>
  Python objects that are integers or strings. Three input files, every other path
  unreadable; one path that can be opened for writing.
\<close>

datatype pyobj = PyInt int | PyStr string

definition is_blank :: "char \<Rightarrow> bool" where
  "is_blank c \<longleftrightarrow> c = CHR '' '' \<or> c = CHR 0x0A"

definition demo_env :: "string os_env" where
  "demo_env =
     \<lparr>read_file = (\<lambda>p. if p = ''f1'' then Some ['' a b'', ''c  ''] else
                        if p = ''f2'' then Some [''d''] else
                        if p = ''empty'' then Some [] else None),
      can_write = (\<lambda>p. p = ''out'')\<rparr>"

text \<open>The default format function, its result read as Python objects.\<close>

definition demo_format :: "int \<Rightarrow> string \<Rightarrow> pyobj \<times> pyobj" where
  "demo_format line_id line =
     (case default_format_func is_blank line_id line of (k, v) \<Rightarrow> (PyInt k, PyStr v))"

definition demo_input :: "string list \<Rightarrow> (string, pyobj \<times> pyobj) HadoopInput" where
  "demo_input ps = (set_format_func demo_format (HadoopInput_init is_blank))\<lparr>paths := Some ps\<rparr>"

definition demo_output :: "(pyobj, pyobj \<times> pyobj) HadoopOutput" where
  "demo_output = (HadoopOutput_init Pair)\<lparr>path := Some ''out''\<rparr>"

text \<open>
  A mapper and a reducer that count the lines with the same text. Their states are the
  lists of the hooks called so far.
\<close>

definition counting_mapper :: "(string list, pyobj) Mapper" where
  "counting_mapper =
     \<lparr>mapper_self = [],
      mapper_setup = (\<lambda>u. (u @ [''setup''], [])),
      mapper_map = (\<lambda>u key val. (u @ [''map''], [Write val (PyInt 1)])),
      mapper_cleanup = (\<lambda>u. (u @ [''cleanup''], []))\<rparr>"

definition counting_reducer :: "(string list, pyobj) Reducer" where
  "counting_reducer =
     \<lparr>reducer_self = [],
      reducer_setup = (\<lambda>w. (w @ [''setup''], [])),
      reducer_reduce = (\<lambda>w key vals. (w @ [''reduce''], [Write key (PyInt (int (length vals)))])),
      reducer_cleanup = (\<lambda>w. (w @ [''cleanup''], []))\<rparr>"

text \<open>A mapper whose \<^verbatim>\<open>map\<close> raises on the line \<^verbatim>\<open>c\<close>.\<close>

definition failing_mapper :: "(string list, pyobj) Mapper" where
  "failing_mapper =
     counting_mapper
       \<lparr>mapper_map := (\<lambda>u key val.
          if val = PyStr ''c'' then (u @ [''map''], [Raise (UserError ''bad line'')])
          else (u @ [''map''], [Write val (PyInt 1)]))\<rparr>"

text \<open>A mapper whose \<^verbatim>\<open>cleanup\<close> writes a record.\<close>

definition summing_mapper :: "(string list, pyobj) Mapper" where
  "summing_mapper =
     counting_mapper
       \<lparr>mapper_cleanup := (\<lambda>u. (u @ [''cleanup''], [Write (PyStr ''lines'') (PyInt 0)]))\<rparr>"

text \<open>A mapper whose \<^verbatim>\<open>setup\<close> assigns into the dictionary \<^verbatim>\<open>get_configuration\<close> returns.\<close>

definition configuring_mapper :: "(string list, pyobj) Mapper" where
  "configuring_mapper =
     counting_mapper
       \<lparr>mapper_setup := (\<lambda>u. (u @ [''setup''], [SetConfig (PyStr ''mode'') (PyStr ''slow'')]))\<rparr>"

text \<open>
  A job built as the demo builds one, from the caller's dictionary \<^verbatim>\<open>{"mode": "fast"}\<close>
  at address 0.
\<close>

definition demo_job ::
  "(string list, pyobj) Mapper \<Rightarrow> string list \<Rightarrow>
   (string list, string list, string, pyobj, pyobj \<times> pyobj) HadoopJob" where
  "demo_job m ps =
     set_output_stream demo_output
       (set_input_stream (demo_input ps)
          (set_reducer counting_reducer
             (set_mapper m (HadoopJob_init [[(PyStr ''mode'', PyStr ''fast'')]] (Some 0)))))"

section \<open>The shuffle store\<close>

lemma write_keys:
  "map fst (shuffle_pair (ShuffleStream_write key val s)) =
     (if key \<in> set (map fst (shuffle_pair s)) then map fst (shuffle_pair s)
      else map fst (shuffle_pair s) @ [key])"
  by (simp add: ShuffleStream_write_def AList.update_keys split: option.splits)

lemma write_lookup:
  "map_of (shuffle_pair (ShuffleStream_write key val s)) =
     (map_of (shuffle_pair s))
       (key \<mapsto> (case map_of (shuffle_pair s) key of None \<Rightarrow> [val] | Some vs \<Rightarrow> vs @ [val]))"
  by (simp add: ShuffleStream_write_def AList.update_conv' split: option.splits)

lemma write_frame:
  "write_phase (ShuffleStream_write key val s) = write_phase s"
  "open_state (ShuffleStream_write key val s) = open_state s"
  by (simp_all add: ShuffleStream_write_def split: option.splits)

lemma write_all_frame:
  "write_phase (write_all ws s) = write_phase s \<and> open_state (write_all ws s) = open_state s"
  by (induction ws s rule: write_all.induct) (simp_all add: write_frame)

lemma write_all_lookup:
  "map_of (shuffle_pair (write_all ws s)) key =
     (case map_of (shuffle_pair s) key of
        None \<Rightarrow> if values_written key ws = [] then None else Some (values_written key ws)
      | Some vs \<Rightarrow> Some (vs @ values_written key ws))"
  by (induction ws s rule: write_all.induct)
     (auto simp: write_lookup values_written_def split: option.splits)

lemma filter_removeAll:
  "filter P (removeAll k xs) = filter (\<lambda>x. x \<noteq> k \<and> P x) xs"
  by (induction xs) auto

lemma filter_removeAll_absorbed:
  "k \<in> A \<Longrightarrow> filter (\<lambda>x. x \<notin> A) (removeAll k xs) = filter (\<lambda>x. x \<notin> A) xs"
  by (induction xs) auto

lemma write_all_keys:
  "map fst (shuffle_pair (write_all ws s)) =
     map fst (shuffle_pair s) @
       filter (\<lambda>k. k \<notin> set (map fst (shuffle_pair s))) (first_writes (map fst ws))"
proof (induction ws s rule: write_all.induct)
  case (1 s)
  then show ?case by simp
next
  case (2 key val ws s)
  show ?case
  proof (cases "key \<in> set (map fst (shuffle_pair s))")
    case True
    then show ?thesis using 2
      by (simp add: write_keys filter_removeAll_absorbed)
  next
    case False
    then show ?thesis using 2
      by (simp add: write_keys filter_removeAll)
  qed
qed

lemma write_all_distinct:
  "distinct (map fst (shuffle_pair s)) \<Longrightarrow> distinct (map fst (shuffle_pair (write_all ws s)))"
  by (induction ws s rule: write_all.induct) (simp_all add: write_keys)

lemma shuffle_then_read_items:
  "shuffle_then_read ws = Items (shuffle_pair (write_all ws (Stream_enter ShuffleStream_init)))"
  by (simp add: shuffle_then_read_def ShuffleStream_enter_def ShuffleStream_exit_def
      Stream_enter_def Stream_exit_def ShuffleStream_init_def write_all_frame Let_def)

lemma fresh_store_empty: "shuffle_pair (Stream_enter ShuffleStream_init) = []"
  by (simp add: Stream_enter_def ShuffleStream_init_def)

lemma values_written_empty: "values_written key ws = [] \<longleftrightarrow> key \<notin> fst ` set ws"
  by (induction ws) (auto simp: values_written_def)

text \<open>
  Claim C2. After any sequence of writes to a fresh store, made inside its write scope, the
  second \<^verbatim>\<open>__enter__\<close> returns an iterator over groups whose keys are distinct and are
  exactly the keys written, and the group of each key is the list of the values written
  under that key, in write order.
\<close>

theorem shuffle_grouping:
  "\<exists>groups. shuffle_then_read ws = Items groups \<and>
     distinct (map fst groups) \<and>
     set (map fst groups) = fst ` set ws \<and>
     (\<forall>key \<in> fst ` set ws. map_of groups key = Some (values_written key ws)) \<and>
     (\<forall>key. key \<notin> fst ` set ws \<longrightarrow> map_of groups key = None)"
proof -
  let ?g = "shuffle_pair (write_all ws (Stream_enter ShuffleStream_init))"
  have 1: "shuffle_then_read ws = Items ?g" by (rule shuffle_then_read_items)
  have 2: "distinct (map fst ?g)"
    by (rule write_all_distinct) (simp add: fresh_store_empty)
  have 3: "map_of ?g key = (if key \<in> fst ` set ws then Some (values_written key ws) else None)" for key
    by (simp add: write_all_lookup fresh_store_empty values_written_empty)
  have "set (map fst ?g) = dom (map_of ?g)" by (simp add: dom_map_of_conv_image_fst)
  also have "\<dots> = fst ` set ws" by (auto simp: dom_def 3)
  finally have 4: "set (map fst ?g) = fst ` set ws" .
  from 1 2 3 4 show ?thesis by simp
qed

theorem shuffle_grouping_witness:
  "\<exists>groups. shuffle_then_read [(1::nat, 10::nat), (2, 20), (1, 30)] = Items groups \<and>
     map_of groups 1 = Some [10, 30] \<and> map_of groups 2 = Some [20] \<and> map_of groups 3 = None"
  using shuffle_grouping [of "[(1::nat, 10::nat), (2, 20), (1, 30)]"]
  by (auto simp: values_written_def)

lemma first_writes_distinct_set: "distinct (first_writes ks) \<and> set (first_writes ks) = set ks"
  by (induction ks) (auto simp: distinct_removeAll)

lemma remdups_snoc: "remdups (xs @ [k]) = removeAll k (remdups xs) @ [k]"
  by (induction xs) auto

lemma rev_removeAll_comm: "rev (removeAll k xs) = removeAll k (rev xs)"
  by (induction xs) auto

lemma first_writes_rev_remdups: "first_writes ks = rev (remdups (rev ks))"
  by (induction ks) (simp_all add: remdups_snoc rev_removeAll_comm)

text \<open>
  Claim C9. The groups are enumerated in the order in which their keys were first written;
  the enumeration is a function of the write sequence.
\<close>

theorem shuffle_read_order:
  "\<exists>groups. shuffle_then_read ws = Items groups \<and> map fst groups = first_writes (map fst ws)"
  by (simp add: shuffle_then_read_items write_all_keys fresh_store_empty)

theorem shuffle_read_order_witness:
  "\<exists>groups. shuffle_then_read [(''b'', 1::nat), (''a'', 2), (''b'', 3), (''c'', 4), (''a'', 5)] = Items groups
     \<and> map fst groups = [''b'', ''a'', ''c'']"
  using shuffle_read_order [of "[(''b'', 1::nat), (''a'', 2), (''b'', 3), (''c'', 4), (''a'', 5)]"]
  by simp

text \<open>
  Claim C4. Once the store is in its read phase, leaving a read scope empties the store,
  and the next \<^verbatim>\<open>__enter__\<close> returns an iterator over no groups.
\<close>

theorem shuffle_second_read_empty:
  assumes "\<not> write_phase s"
  shows "shuffle_pair (ShuffleStream_exit (snd (ShuffleStream_enter s))) = [] \<and>
         fst (ShuffleStream_enter (ShuffleStream_exit (snd (ShuffleStream_enter s)))) = Items []"
  using assms
  by (simp add: ShuffleStream_enter_def ShuffleStream_exit_def Stream_enter_def Stream_exit_def
      Let_def)

theorem shuffle_second_read_empty_witness:
  "\<not> write_phase (ShuffleStream_exit (write_all [(''a'', 1::nat), (''b'', 2)]
        (snd (ShuffleStream_enter ShuffleStream_init)))) \<and>
   fst (ShuffleStream_enter (ShuffleStream_exit (write_all [(''a'', 1::nat), (''b'', 2)]
        (snd (ShuffleStream_enter ShuffleStream_init))))) = Items [(''a'', [1]), (''b'', [2])] \<and>
   fst (ShuffleStream_enter (ShuffleStream_exit (snd (ShuffleStream_enter
        (ShuffleStream_exit (write_all [(''a'', 1::nat), (''b'', 2)]
          (snd (ShuffleStream_enter ShuffleStream_init)))))))) = Items []"
proof -
  let ?s = "ShuffleStream_exit (write_all [(''a'', 1::nat), (''b'', 2)]
        (snd (ShuffleStream_enter ShuffleStream_init)))"
  have h: "\<not> write_phase ?s"
    by (simp add: ShuffleStream_enter_def ShuffleStream_exit_def Stream_enter_def Stream_exit_def
      ShuffleStream_init_def ShuffleStream_write_def Let_def)
  have g: "fst (ShuffleStream_enter ?s) = Items [(''a'', [1]), (''b'', [2])]"
    by (simp add: ShuffleStream_enter_def ShuffleStream_exit_def Stream_enter_def Stream_exit_def
      ShuffleStream_init_def ShuffleStream_write_def Let_def)
  from h g shuffle_second_read_empty [OF h] show ?thesis by simp
qed

text \<open>
  Claim C1, on the code: a store whose write scope has been closed is in its read phase and
  is not open, and \<^verbatim>\<open>write\<close> on it still appends the value to the group of its key.
\<close>

theorem shuffle_write_after_close:
  "write_phase (ShuffleStream_exit (ShuffleStream_write ''a'' (1::int)
       (snd (ShuffleStream_enter ShuffleStream_init)))) = False \<and>
   is_open (ShuffleStream_exit (ShuffleStream_write ''a'' (1::int)
       (snd (ShuffleStream_enter ShuffleStream_init)))) = Inr False \<and>
   shuffle_pair (ShuffleStream_write ''a'' 2 (ShuffleStream_exit (ShuffleStream_write ''a'' (1::int)
       (snd (ShuffleStream_enter ShuffleStream_init))))) = [(''a'', [1, 2])]"
  by (simp add: ShuffleStream_enter_def ShuffleStream_exit_def Stream_enter_def Stream_exit_def
      ShuffleStream_init_def ShuffleStream_write_def is_open_def Let_def)

section \<open>The context's write guard\<close>

text \<open>
  Claim C7. \<^verbatim>\<open>HadoopContext.write\<close> on a closed stream raises \<^verbatim>\<open>AssertionError\<close> and
  leaves the job as it was; on a stream never entered \<^verbatim>\<open>is_open\<close> itself raises; on an
  open stream the result is that of the stream's own \<^verbatim>\<open>write\<close>.
\<close>

theorem context_write_guard:
  "(is_open out = Inr False \<longrightarrow> HadoopContext_write stream_write key val out = Inl AssertionError) \<and>
   (is_open out = Inl e \<longrightarrow> HadoopContext_write stream_write key val out = Inl e) \<and>
   (is_open out = Inr True \<longrightarrow>
      HadoopContext_write stream_write key val out = stream_write key val out) \<and>
   (is_open (shuffle_stream j) = Inr False \<longrightarrow>
      map_context_write key' val' j = (Some AssertionError, j)) \<and>
   (output_stream j = Some sink \<and> is_open sink = Inr False \<longrightarrow>
      reduce_context_write key' val' j = (Some AssertionError, j)) \<and>
   (is_open (shuffle_stream j) = Inr True \<longrightarrow>
      map_context_write key' val' j =
        (None, j\<lparr>shuffle_stream := ShuffleStream_write key' val' (shuffle_stream j)\<rparr>))"
  by (simp add: HadoopContext_write_def map_context_write_def reduce_context_write_def)

theorem context_write_guard_witness:
  "HadoopContext_write (\<lambda>k v s. Inr (ShuffleStream_write k v s)) ''a'' (1::int)
      (ShuffleStream_exit (snd (ShuffleStream_enter ShuffleStream_init))) = Inl AssertionError \<and>
   HadoopContext_write (\<lambda>k v s. Inr (ShuffleStream_write k v s)) ''a'' (1::int)
      ShuffleStream_init = Inl AttributeError \<and>
   HadoopContext_write (\<lambda>k v s. Inr (ShuffleStream_write k v s)) ''a'' (1::int)
      (snd (ShuffleStream_enter ShuffleStream_init)) =
        Inr (ShuffleStream_write ''a'' 1 (snd (ShuffleStream_enter ShuffleStream_init))) \<and>
   map_context_write (PyStr ''a'') (PyInt 1)
      ((demo_job counting_mapper [''f1''])
         \<lparr>shuffle_stream := ShuffleStream_exit (snd (ShuffleStream_enter ShuffleStream_init))\<rparr>) =
     (Some AssertionError,
      (demo_job counting_mapper [''f1''])
         \<lparr>shuffle_stream := ShuffleStream_exit (snd (ShuffleStream_enter ShuffleStream_init))\<rparr>) \<and>
   reduce_context_write (PyStr ''a'') (PyInt 1)
      ((demo_job counting_mapper [''f1''])\<lparr>output_stream := Some (Stream_exit demo_output)\<rparr>) =
     (Some AssertionError,
      (demo_job counting_mapper [''f1''])\<lparr>output_stream := Some (Stream_exit demo_output)\<rparr>) \<and>
   map_context_write (PyStr ''a'') (PyInt 1)
      ((demo_job counting_mapper [''f1''])
         \<lparr>shuffle_stream := snd (ShuffleStream_enter ShuffleStream_init)\<rparr>) =
     (None,
      (demo_job counting_mapper [''f1''])
         \<lparr>shuffle_stream :=
            ShuffleStream_write (PyStr ''a'') (PyInt 1)
              (snd (ShuffleStream_enter ShuffleStream_init))\<rparr>)"
proof -
  let ?w = "\<lambda>k v s. Inr (ShuffleStream_write k v s) :: error + (string, int) ShuffleStream"
  let ?opened = "snd (ShuffleStream_enter ShuffleStream_init) :: (string, int) ShuffleStream"
  let ?j = "demo_job counting_mapper [''f1'']"
  let ?closed = "?j\<lparr>shuffle_stream := ShuffleStream_exit (snd (ShuffleStream_enter ShuffleStream_init))\<rparr>"
  let ?sunk = "?j\<lparr>output_stream := Some (Stream_exit demo_output)\<rparr>"
  let ?ready = "?j\<lparr>shuffle_stream := snd (ShuffleStream_enter ShuffleStream_init)\<rparr>"
  have c: "is_open (ShuffleStream_exit ?opened) = Inr False"
    by (simp add: is_open_def ShuffleStream_exit_def ShuffleStream_enter_def Stream_exit_def
        Stream_enter_def ShuffleStream_init_def Let_def)
  have n: "is_open (ShuffleStream_init :: (string, int) ShuffleStream) = Inl AttributeError"
    by (simp add: is_open_def ShuffleStream_init_def)
  have opn: "is_open ?opened = Inr True"
    by (simp add: is_open_def ShuffleStream_enter_def Stream_enter_def ShuffleStream_init_def
        Let_def)
  have jc: "is_open (shuffle_stream ?closed) = Inr False"
    by (simp add: is_open_def ShuffleStream_exit_def ShuffleStream_enter_def Stream_exit_def
        Stream_enter_def ShuffleStream_init_def Let_def)
  have js: "output_stream ?sunk = Some (Stream_exit demo_output) \<and>
      is_open (Stream_exit demo_output) = Inr False"
    by (simp add: is_open_def Stream_exit_def)
  have jr: "is_open (shuffle_stream ?ready) = Inr True"
    by (simp add: is_open_def ShuffleStream_enter_def Stream_enter_def ShuffleStream_init_def
        Let_def)
  note g1 = context_write_guard [of "ShuffleStream_exit ?opened" ?w "''a''" 1, THEN conjunct1]
  note g2 = context_write_guard [of ShuffleStream_init ?w "''a''" 1 AttributeError,
      THEN conjunct2, THEN conjunct1]
  note g3 = context_write_guard [of ?opened ?w "''a''" 1,
      THEN conjunct2, THEN conjunct2, THEN conjunct1]
  note g4 = context_write_guard [where j = ?closed and key' = "PyStr ''a''" and val' = "PyInt 1",
      THEN conjunct2, THEN conjunct2, THEN conjunct2, THEN conjunct1]
  note g5 = context_write_guard [where j = ?sunk and sink = "Stream_exit demo_output"
      and key' = "PyStr ''a''" and val' = "PyInt 1",
      THEN conjunct2, THEN conjunct2, THEN conjunct2, THEN conjunct2, THEN conjunct1]
  note g6 = context_write_guard [where j = ?ready and key' = "PyStr ''a''" and val' = "PyInt 1",
      THEN conjunct2, THEN conjunct2, THEN conjunct2, THEN conjunct2, THEN conjunct2]
  from c g1
  have 1: "HadoopContext_write ?w ''a'' 1 (ShuffleStream_exit ?opened) = Inl AssertionError"
    by simp
  from n g2
  have 2: "HadoopContext_write ?w ''a'' 1 ShuffleStream_init = Inl AttributeError"
    by simp
  from opn g3
  have 3: "HadoopContext_write ?w ''a'' 1 ?opened = ?w ''a'' 1 ?opened"
    by simp
  from jc g4 have 4: "map_context_write (PyStr ''a'') (PyInt 1) ?closed = (Some AssertionError, ?closed)"
    by simp
  from js g5 have 5: "reduce_context_write (PyStr ''a'') (PyInt 1) ?sunk = (Some AssertionError, ?sunk)"
    by simp
  from jr g6 have 6: "map_context_write (PyStr ''a'') (PyInt 1) ?ready =
      (None, ?ready\<lparr>shuffle_stream := ShuffleStream_write (PyStr ''a'') (PyInt 1)
         (shuffle_stream ?ready)\<rparr>)"
    by simp
  from 1 2 3 4 5 6 show ?thesis by simp
qed

section \<open>The input stream\<close>

lemma lines_loop_enumerate:
  "lines_loop f (int m) ls =
     (map (\<lambda>(i, line). f (int i) line) (enumerate m ls), int (m + length ls))"
proof (induction ls arbitrary: m)
  case Nil
  then show ?case by simp
next
  case (Cons l ls)
  have "lines_loop f (int m + 1) ls = lines_loop f (int (Suc m)) ls"
    by (simp add: add.commute)
  then show ?case using Cons [of "Suc m"] by simp
qed

lemma paths_loop_enumerate:
  "map rd ps = map Some files \<Longrightarrow>
   paths_loop rd f (int m) ps =
     (map (\<lambda>(i, line). f (int i) line) (enumerate m (concat files)), None)"
proof (induction ps arbitrary: m files)
  case Nil
  then show ?case by simp
next
  case (Cons p ps)
  then obtain ls rest where files: "files = ls # rest" and p: "rd p = Some ls"
    and rest: "map rd ps = map Some rest"
    by (cases files) auto
  from Cons.IH [OF rest, of "m + length ls"]
  show ?case by (simp add: files p lines_loop_enumerate enumerate_append_eq)
qed

text \<open>
  Claim C10. With the default format function and every file readable, the records are
  the lines of all the files in path order, each stripped, and the key of a record is its
  index in that whole sequence, from 0.
\<close>

theorem input_keys_accumulate:
  assumes "paths s = Some ps"
    and "format_func s = default_format_func isspace"
    and "map (read_file env) ps = map Some files"
  shows "fst (HadoopInput_enter env s) =
           (map (\<lambda>(i, line). (int i, strip isspace line)) (enumerate 0 (concat files)), None)"
proof -
  have "paths_loop (read_file env) (default_format_func isspace) (int 0) ps =
      (map (\<lambda>(i, line). default_format_func isspace (int i) line) (enumerate 0 (concat files)), None)"
    using assms(3) by (rule paths_loop_enumerate)
  then show ?thesis using assms(1,2)
    by (simp add: HadoopInput_enter_def get_assembled_input_stream_def Stream_enter_def
        default_format_func_def Let_def)
qed

theorem input_keys_accumulate_witness:
  "fst (HadoopInput_enter demo_env
          ((HadoopInput_init is_blank)\<lparr>paths := Some [''f1'', ''f2'']\<rparr>)) =
     ([(0, ''a b''), (1, ''c''), (2, ''d'')], None)"
proof -
  let ?s = "(HadoopInput_init is_blank)\<lparr>paths := Some [''f1'', ''f2'']\<rparr>"
  have 1: "paths ?s = Some [''f1'', ''f2'']" by simp
  have 2: "format_func ?s = default_format_func is_blank"
    by (simp add: HadoopInput_init_def)
  have 3: "map (read_file demo_env) [''f1'', ''f2''] = map Some [['' a b'', ''c  ''], [''d'']]"
    by (simp add: demo_env_def)
  from input_keys_accumulate [OF 1 2 3] show ?thesis
    by (simp add: strip_def is_blank_def enumerate_eq_zip upt_rec)
qed

section \<open>The job: what each step leaves unchanged\<close>

lemma and_then_simps [simp]:
  "and_then (None, s) f = f s"
  "and_then (Some e, s) f = (Some e, s)"
  by (simp_all add: and_then_def)

lemma and_then_leaves:
  assumes "g (snd r) = x" and "\<And>s. g s = x \<Longrightarrow> g (snd (f s)) = x"
  shows "g (snd (and_then r f)) = x"
  using assms by (cases r) (auto simp: and_then_def split: option.splits)

lemma map_context_write_leaves:
  "hooks_leave g \<Longrightarrow> g (snd (map_context_write k v j)) = g j"
  by (simp add: map_context_write_def hooks_leave_def split: sum.splits)

lemma reduce_context_write_leaves:
  "hooks_leave g \<Longrightarrow> g (snd (reduce_context_write k v j)) = g j"
  by (simp add: reduce_context_write_def hooks_leave_def split: sum.splits option.splits)

lemma run_actions_leaves:
  assumes "hooks_leave g" and "\<And>k v j. g (snd (wr k v j)) = g j"
  shows "g (snd (run_actions ctx wr acts j)) = g j"
proof (induction acts arbitrary: j)
  case Nil
  then show ?case by simp
next
  case (Cons a acts)
  show ?case
  proof (cases a)
    case (Write k v)
    have "g (snd (and_then (wr k v j) (run_actions ctx wr acts))) = g j"
      by (rule and_then_leaves [where g = g]) (simp_all add: assms(2) Cons.IH)
    then show ?thesis by (simp add: Write)
  next
    case (SetConfig k v)
    then show ?thesis using assms(1)
      by (simp add: Cons.IH hooks_leave_def split: option.splits)
  next
    case (Raise e)
    then show ?thesis by simp
  qed
qed

lemma map_actions_leave:
  "hooks_leave g \<Longrightarrow> g (snd (run_actions ctx map_context_write acts j)) = g j"
  by (rule run_actions_leaves) (simp_all add: map_context_write_leaves)

lemma reduce_actions_leave:
  "hooks_leave g \<Longrightarrow> g (snd (run_actions ctx reduce_context_write acts j)) = g j"
  by (rule run_actions_leaves) (simp_all add: reduce_context_write_leaves)

lemma mapper_call_leaves:
  assumes "hooks_leave g" and "mapper j = Some m"
  shows "g (snd (run_actions map_context map_context_write acts
                  (j\<lparr>mapper := Some (m\<lparr>mapper_self := u\<rparr>)\<rparr>))) = g j"
proof -
  have "g (snd (run_actions map_context map_context_write acts
                  (j\<lparr>mapper := Some (m\<lparr>mapper_self := u\<rparr>)\<rparr>))) =
        g (j\<lparr>mapper := Some (m\<lparr>mapper_self := u\<rparr>)\<rparr>)"
    by (rule map_actions_leave [OF assms(1)])
  also have "\<dots> = g j" using assms by (simp add: hooks_leave_def)
  finally show ?thesis .
qed

lemma reducer_call_leaves:
  assumes "hooks_leave g" and "reducer j = Some r"
  shows "g (snd (run_actions reduce_context reduce_context_write acts
                  (j\<lparr>reducer := Some (r\<lparr>reducer_self := w\<rparr>)\<rparr>))) = g j"
proof -
  have "g (snd (run_actions reduce_context reduce_context_write acts
                  (j\<lparr>reducer := Some (r\<lparr>reducer_self := w\<rparr>)\<rparr>))) =
        g (j\<lparr>reducer := Some (r\<lparr>reducer_self := w\<rparr>)\<rparr>)"
    by (rule reduce_actions_leave [OF assms(1)])
  also have "\<dots> = g j" using assms by (simp add: hooks_leave_def)
  finally show ?thesis .
qed

lemma call_mapper_leaves:
  assumes "hooks_leave g"
  shows "g (snd (call_mapper_setup j)) = g j"
    and "g (snd (call_mapper_map k v j)) = g j"
    and "g (snd (call_mapper_cleanup j)) = g j"
  by (simp_all add: call_mapper_setup_def call_mapper_map_def call_mapper_cleanup_def
      mapper_call_leaves [OF assms] split: option.splits prod.splits)

lemma call_reducer_leaves:
  assumes "hooks_leave g"
  shows "g (snd (call_reducer_setup j)) = g j"
    and "g (snd (call_reducer_reduce k vs j)) = g j"
    and "g (snd (call_reducer_cleanup j)) = g j"
  by (simp_all add: call_reducer_setup_def call_reducer_reduce_def call_reducer_cleanup_def
      reducer_call_leaves [OF assms] split: option.splits prod.splits)

lemma map_loop_leaves: "hooks_leave g \<Longrightarrow> g (snd (map_loop recs j)) = g j"
proof (induction recs arbitrary: j)
  case Nil
  then show ?case by simp
next
  case (Cons r recs)
  obtain k v where r: "r = (k, v)" by (cases r)
  have "g (snd (and_then (call_mapper_map k v j) (map_loop recs))) = g j"
    by (rule and_then_leaves [where g = g]) (simp_all add: Cons call_mapper_leaves)
  then show ?case by (simp add: r)
qed

lemma reduce_loop_leaves: "hooks_leave g \<Longrightarrow> g (snd (reduce_loop groups j)) = g j"
proof (induction groups arbitrary: j)
  case Nil
  then show ?case by simp
next
  case (Cons r groups)
  obtain k vs where r: "r = (k, vs)" by (cases r)
  have "g (snd (and_then (call_reducer_reduce k vs j) (reduce_loop groups))) = g j"
    by (rule and_then_leaves [where g = g]) (simp_all add: Cons call_reducer_leaves)
  then show ?case by (simp add: r)
qed

lemma map_body_leaves:
  assumes "hooks_leave g"
  shows "g (snd (map_body gen j)) = g j"
proof -
  have 1: "g (snd (and_then (call_mapper_setup j) (map_loop (fst gen)))) = g j"
    by (rule and_then_leaves [where g = g]) (simp_all add: assms call_mapper_leaves map_loop_leaves)
  have 2: "g (snd (and_then (and_then (call_mapper_setup j) (map_loop (fst gen)))
                     (\<lambda>j'. (snd gen, j')))) = g j"
    by (rule and_then_leaves [where g = g]) (simp_all add: 1)
  show ?thesis unfolding map_body_def
    by (rule and_then_leaves [where g = g]) (simp_all add: 2 assms call_mapper_leaves)
qed

lemma reduce_body_leaves:
  assumes "hooks_leave g"
  shows "g (snd (reduce_body h j)) = g j"
proof -
  have 1: "g (snd (and_then (call_reducer_setup j)
                     (case h of Self \<Rightarrow> (\<lambda>j'. (Some TypeError, j'))
                      | Items groups \<Rightarrow> reduce_loop groups))) = g j"
    by (rule and_then_leaves [where g = g])
       (simp_all add: assms call_reducer_leaves reduce_loop_leaves split: shuffle_handle.splits)
  show ?thesis unfolding reduce_body_def
    by (rule and_then_leaves [where g = g]) (simp_all add: 1 assms call_reducer_leaves)
qed


lemma map_context_enter_leaves:
  "scopes_leave g \<Longrightarrow> g (snd (map_context_enter env j)) = g j"
  by (simp add: scopes_leave_def map_context_enter_def Let_def
      split: option.splits prod.splits)

lemma map_context_exit_leaves:
  "scopes_leave g \<Longrightarrow> g (snd (map_context_exit j)) = g j"
  by (simp add: scopes_leave_def map_context_exit_def Let_def
      split: option.splits prod.splits)

lemma reduce_context_enter_leaves:
  "scopes_leave g \<Longrightarrow> g (snd (reduce_context_enter env j)) = g j"
  by (simp add: scopes_leave_def reduce_context_enter_def Let_def
      split: option.splits prod.splits)

lemma reduce_context_exit_leaves:
  "scopes_leave g \<Longrightarrow> g (snd (reduce_context_exit j)) = g j"
  by (simp add: scopes_leave_def reduce_context_exit_def Let_def
      split: option.splits prod.splits)

lemma with_scope_leaves:
  assumes "g (snd entered) = x"
    and "\<And>h s. g s = x \<Longrightarrow> g (snd (body h s)) = x"
    and "\<And>s. g s = x \<Longrightarrow> g (snd (exit_scope s)) = x"
  shows "g (snd (with_scope entered body exit_scope)) = x"
proof (cases entered)
  case (Pair r s)
  show ?thesis
  proof (cases r)
    case (Inl e)
    then show ?thesis using assms(1) Pair by (simp add: with_scope_def)
  next
    case (Inr h)
    have "g s = x" using assms(1) Pair by simp
    then have "g (snd (body h s)) = x" by (rule assms(2))
    then have "g (snd (exit_scope (snd (body h s)))) = x" by (rule assms(3))
    then show ?thesis using Pair Inr
      by (auto simp: with_scope_def split: prod.splits option.splits)
  qed
qed

lemma map_phase_leaves:
  assumes "hooks_leave g" and "scopes_leave g"
  shows "g (snd (map_phase env j)) = g j"
  unfolding map_phase_def
  by (rule with_scope_leaves [where g = g])
     (simp_all add: assms map_context_enter_leaves map_context_exit_leaves map_body_leaves)

lemma reduce_phase_leaves:
  assumes "hooks_leave g" and "scopes_leave g"
  shows "g (snd (reduce_phase env j)) = g j"
  unfolding reduce_phase_def
  by (rule with_scope_leaves [where g = g])
     (simp_all add: assms reduce_context_enter_leaves reduce_context_exit_leaves
       reduce_body_leaves)

lemma leaves_successful: "hooks_leave successful" "scopes_leave successful"
  by (simp_all add: hooks_leave_def scopes_leave_def)

lemma leaves_config: "hooks_leave config" "scopes_leave config"
  by (simp_all add: hooks_leave_def scopes_leave_def)

lemma start_job_cases:
  "start_job env j =
     (case start_check j of
        Some e \<Rightarrow> (Some e, j)
      | None \<Rightarrow>
          (case map_phase env j of
             (Some e, j1) \<Rightarrow> (Some e, j1)
           | (None, j1) \<Rightarrow>
               (case reduce_phase env j1 of
                  (Some e, j2) \<Rightarrow> (Some e, j2)
                | (None, j2) \<Rightarrow> (None, j2\<lparr>successful := True\<rparr>))))"
  by (simp add: start_job_def and_then_def split: option.splits prod.splits)

text \<open>
  Claim C6. A new job is not successful. For a job that is not successful, the flag is true
  after \<^verbatim>\<open>start_job\<close> exactly when the start check passed and both phases returned
  without an exception, which is exactly when \<^verbatim>\<open>start_job\<close> itself returned; when
  \<^verbatim>\<open>start_job\<close> raises, the flag is what it was.
\<close>

theorem success_flag_iff:
  "\<not> is_successful (HadoopJob_init store cfg) \<and>
   (\<not> is_successful j \<longrightarrow>
      (is_successful (snd (start_job env j)) \<longleftrightarrow>
         start_check j = None \<and> fst (map_phase env j) = None \<and>
         fst (reduce_phase env (snd (map_phase env j))) = None)) \<and>
   (fst (start_job env j) = None \<longleftrightarrow>
      start_check j = None \<and> fst (map_phase env j) = None \<and>
      fst (reduce_phase env (snd (map_phase env j))) = None) \<and>
   (fst (start_job env j) \<noteq> None \<longrightarrow>
      is_successful (snd (start_job env j)) = is_successful j)"
proof -
  have m: "successful (snd (map_phase env j)) = successful j"
    by (rule map_phase_leaves) (rule leaves_successful)+
  have r: "successful (snd (reduce_phase env (snd (map_phase env j)))) = successful j"
    using reduce_phase_leaves [OF leaves_successful, of env "snd (map_phase env j)"] m by simp
  have 1: "\<not> is_successful (HadoopJob_init store cfg)"
    by (simp add: is_successful_def HadoopJob_init_def)
  obtain x j1 where p1: "map_phase env j = (x, j1)" by (cases "map_phase env j")
  obtain y j2 where p2: "reduce_phase env j1 = (y, j2)" by (cases "reduce_phase env j1")
  from m r p1 p2 have s: "successful j1 = successful j" "successful j2 = successful j"
    by simp_all
  show ?thesis
    using 1 s
    by (auto simp: start_job_cases is_successful_def p1 p2 split: option.splits)
qed


lemmas run_defs =
  start_job_def start_check_def map_phase_def reduce_phase_def with_scope_def map_body_def
  reduce_body_def map_context_enter_def map_context_exit_def reduce_context_enter_def
  reduce_context_exit_def call_mapper_setup_def call_mapper_map_def call_mapper_cleanup_def
  call_reducer_setup_def call_reducer_reduce_def call_reducer_cleanup_def
  map_context_write_def reduce_context_write_def HadoopContext_write_def is_open_def
  HadoopInput_enter_def HadoopInput_exit_def get_assembled_input_stream_def
  HadoopOutput_enter_def HadoopOutput_exit_def HadoopOutput_write_def
  ShuffleStream_enter_def ShuffleStream_exit_def ShuffleStream_write_def
  Stream_enter_def Stream_exit_def get_configuration_def dict_setitem_def

lemmas demo_defs =
  demo_job_def demo_env_def demo_input_def demo_output_def demo_format_def is_blank_def
  counting_mapper_def counting_reducer_def failing_mapper_def summing_mapper_def
  configuring_mapper_def HadoopJob_init_def set_mapper_def set_reducer_def
  set_input_stream_def set_output_stream_def HadoopContext_init_def HadoopInput_init_def
  HadoopOutput_init_def set_format_func_def ShuffleStream_init_def default_format_func_def
  strip_def dict_update_def

theorem success_flag_iff_witness:
  "\<not> is_successful (demo_job counting_mapper [''f1'', ''f2'']) \<and>
   fst (start_job demo_env (demo_job counting_mapper [''f1'', ''f2''])) = None \<and>
   is_successful (snd (start_job demo_env (demo_job counting_mapper [''f1'', ''f2'']))) \<and>
   fst (start_job demo_env (demo_job failing_mapper [''f1'', ''f2''])) =
     Some (UserError ''bad line'') \<and>
   \<not> is_successful (snd (start_job demo_env (demo_job failing_mapper [''f1'', ''f2''])))"
proof -
  let ?ok = "demo_job counting_mapper [''f1'', ''f2'']"
  let ?bad = "demo_job failing_mapper [''f1'', ''f2'']"
  have fresh: "\<not> is_successful ?ok" "\<not> is_successful ?bad"
    by (simp_all add: is_successful_def demo_defs)
  have phases: "start_check ?ok = None" "fst (map_phase demo_env ?ok) = None"
    "fst (reduce_phase demo_env (snd (map_phase demo_env ?ok))) = None"
    by (simp_all add: run_defs demo_defs Let_def)
  have raised: "fst (start_job demo_env ?bad) = Some (UserError ''bad line'')"
    by (simp add: run_defs demo_defs Let_def)
  note ok = success_flag_iff [of _ _ ?ok demo_env, THEN conjunct2]
  note bad = success_flag_iff [of _ _ ?bad demo_env, THEN conjunct2]
  from ok fresh(1) phases
  have 1: "is_successful (snd (start_job demo_env ?ok))" "fst (start_job demo_env ?ok) = None"
    by blast+
  from bad fresh(2) raised
  have 2: "\<not> is_successful (snd (start_job demo_env ?bad))"
    by simp
  from fresh 1 2 raised show ?thesis by simp
qed

section \<open>A failing mapper\<close>

lemma leaves_map_side: "hooks_leave map_context" "hooks_leave input_stream"
  by (simp_all add: hooks_leave_def)

lemma map_loop_append: "map_loop (xs @ ys) j = and_then (map_loop xs j) (map_loop ys)"
proof (induction xs arbitrary: j)
  case Nil
  then show ?case by simp
next
  case (Cons x xs)
  obtain k v where x: "x = (k, v)" by (cases x)
  show ?case
    by (cases "call_mapper_map k v j") (auto simp: x Cons and_then_def split: option.splits)
qed

lemma start_check_None:
  "start_check j = None \<longleftrightarrow>
     mapper j \<noteq> None \<and> reducer j \<noteq> None \<and> input_stream j \<noteq> None \<and>
     output_stream j \<noteq> None \<and> map_context j \<noteq> None \<and> reduce_context j \<noteq> None"
  by (simp add: start_check_def)

lemma map_context_enter_Some:
  assumes "map_context j = Some c" and "input_stream j = Some inp"
  shows "map_context_enter env j =
           (Inr (get_assembled_input_stream env inp),
            j\<lparr>map_context := Some (Stream_enter c),
              shuffle_stream := snd (ShuffleStream_enter (shuffle_stream j)),
              input_stream := Some (Stream_enter inp)\<rparr>)"
  using assms
  by (simp add: map_context_enter_def HadoopInput_enter_def get_assembled_input_stream_def
      Stream_enter_def Let_def split: option.splits)

lemma map_context_exit_Some:
  assumes "map_context j = Some c" and "input_stream j = Some inp"
  shows "map_context_exit j =
           (None,
            j\<lparr>map_context := Some (Stream_exit c),
              input_stream := Some (Stream_exit inp),
              shuffle_stream := ShuffleStream_exit (shuffle_stream j)\<rparr>)"
  using assms
  by (simp add: map_context_exit_def HadoopInput_exit_def Let_def)

lemma is_open_after_exit:
  "is_open (Stream_exit s) = Inr False" "is_open (ShuffleStream_exit sh) = Inr False"
  by (simp_all add: is_open_def Stream_exit_def ShuffleStream_exit_def Let_def)

text \<open>
  Claim C5. A run of a configured job, not yet successful, in which \<^verbatim>\<open>setup\<close> returns, the
  \<^verbatim>\<open>map\<close> calls on the records \<open>before\<close> return and the \<^verbatim>\<open>map\<close> call on the next record
  raises \<open>e\<close>: \<^verbatim>\<open>start_job\<close> raises \<open>e\<close>, the job is not successful, and \<^verbatim>\<open>is_open()\<close> is
  false on the input stream, on the shuffle store and on the map context.
\<close>

theorem map_failure_closes_streams:
  assumes "start_check j = None"
    and "\<not> is_successful j"
    and "input_stream j = Some inp"
    and "get_assembled_input_stream env inp = (before @ (key, val) # rest, gen_end)"
    and "call_mapper_setup (snd (map_context_enter env j)) = (None, j2)"
    and "map_loop before j2 = (None, j3)"
    and "fst (call_mapper_map key val j3) = Some e"
  shows "fst (start_job env j) = Some e \<and>
         \<not> is_successful (snd (start_job env j)) \<and>
         map_option is_open (input_stream (snd (start_job env j))) = Some (Inr False) \<and>
         is_open (shuffle_stream (snd (start_job env j))) = Inr False \<and>
         map_option is_open (map_context (snd (start_job env j))) = Some (Inr False)"
proof -
  from assms(1) obtain c where c: "map_context j = Some c"
    by (auto simp: start_check_None)
  define j1 where "j1 = snd (map_context_enter env j)"
  have enter: "map_context_enter env j = (Inr (before @ (key, val) # rest, gen_end), j1)"
    and j1: "map_context j1 = Some (Stream_enter c)" "input_stream j1 = Some (Stream_enter inp)"
      "successful j1 = successful j"
    unfolding j1_def by (simp_all add: map_context_enter_Some [OF c assms(3)] assms(4))
  define j4 where "j4 = snd (call_mapper_map key val j3)"
  have call: "call_mapper_map key val j3 = (Some e, j4)"
    using assms(7) by (simp add: j4_def prod_eq_iff)
  have body: "map_body (before @ (key, val) # rest, gen_end) j1 = (Some e, j4)"
    using assms(5,6) call by (simp add: map_body_def j1_def map_loop_append)
  have "g (snd (map_body (before @ (key, val) # rest, gen_end) j1)) = g j1"
    if "hooks_leave g" for g :: "('a, 'b, 'c, 'd, 'e) HadoopJob \<Rightarrow> 'x"
    using that by (rule map_body_leaves)
  then have same: "g j4 = g j1" if "hooks_leave g" for g :: "('a, 'b, 'c, 'd, 'e) HadoopJob \<Rightarrow> 'x"
    using that body by simp
  have j4: "map_context j4 = Some (Stream_enter c)" "input_stream j4 = Some (Stream_enter inp)"
    "successful j4 = successful j"
    using same [OF leaves_map_side(1)] same [OF leaves_map_side(2)]
      same [OF leaves_successful(1)] j1
    by simp_all
  define j5 where "j5 = j4\<lparr>map_context := Some (Stream_exit (Stream_enter c)),
      input_stream := Some (Stream_exit (Stream_enter inp)),
      shuffle_stream := ShuffleStream_exit (shuffle_stream j4)\<rparr>"
  have exit: "map_context_exit j4 = (None, j5)"
    unfolding j5_def by (rule map_context_exit_Some) (rule j4)+
  have "map_phase env j = (Some e, j5)"
    by (simp add: map_phase_def with_scope_def enter body exit)
  then have run: "start_job env j = (Some e, j5)"
    using assms(1) by (simp add: start_job_def)
  show ?thesis
    using assms(2) j4(3)
    by (simp add: run j5_def is_successful_def is_open_after_exit)
qed


theorem map_failure_closes_streams_witness:
  "start_check (demo_job failing_mapper [''f1'', ''f2'']) = None \<and>
   \<not> is_successful (demo_job failing_mapper [''f1'', ''f2'']) \<and>
   fst (call_mapper_map (PyInt 1) (PyStr ''c'')
     (snd (map_loop [(PyInt 0, PyStr ''a b'')]
       (snd (call_mapper_setup
         (snd (map_context_enter demo_env (demo_job failing_mapper [''f1'', ''f2'']))))))))
     = Some (UserError ''bad line'') \<and>
   fst (start_job demo_env (demo_job failing_mapper [''f1'', ''f2''])) =
     Some (UserError ''bad line'') \<and>
   \<not> is_successful (snd (start_job demo_env (demo_job failing_mapper [''f1'', ''f2'']))) \<and>
   map_option is_open
     (input_stream (snd (start_job demo_env (demo_job failing_mapper [''f1'', ''f2''])))) =
     Some (Inr False) \<and>
   is_open (shuffle_stream (snd (start_job demo_env (demo_job failing_mapper [''f1'', ''f2''])))) =
     Inr False \<and>
   map_option is_open
     (map_context (snd (start_job demo_env (demo_job failing_mapper [''f1'', ''f2''])))) =
     Some (Inr False)"
proof -
  let ?j = "demo_job failing_mapper [''f1'', ''f2'']"
  let ?j2 = "snd (call_mapper_setup (snd (map_context_enter demo_env ?j)))"
  let ?j3 = "snd (map_loop [(PyInt 0, PyStr ''a b'')] ?j2)"
  have 1: "start_check ?j = None" by (simp add: run_defs demo_defs)
  have 2: "\<not> is_successful ?j" by (simp add: is_successful_def demo_defs)
  have 3: "input_stream ?j = Some (demo_input [''f1'', ''f2''])" by (simp add: demo_defs)
  have 4: "get_assembled_input_stream demo_env (demo_input [''f1'', ''f2'']) =
      ([(PyInt 0, PyStr ''a b'')] @ (PyInt 1, PyStr ''c'') # [(PyInt 2, PyStr ''d'')], None)"
    by (simp add: run_defs demo_defs)
  have "fst (call_mapper_setup (snd (map_context_enter demo_env ?j))) = None"
    by (simp add: run_defs demo_defs Let_def)
  then have 5: "call_mapper_setup (snd (map_context_enter demo_env ?j)) = (None, ?j2)"
    by (simp add: prod_eq_iff)
  have "fst (map_loop [(PyInt 0, PyStr ''a b'')] ?j2) = None"
    by (simp add: run_defs demo_defs Let_def)
  then have 6: "map_loop [(PyInt 0, PyStr ''a b'')] ?j2 = (None, ?j3)"
    by (simp add: prod_eq_iff)
  have 7: "fst (call_mapper_map (PyInt 1) (PyStr ''c'') ?j3) = Some (UserError ''bad line'')"
    by (simp add: run_defs demo_defs Let_def)
  from map_failure_closes_streams [OF 1 2 3 4 5 6 7] 1 2 7 show ?thesis by simp
qed

section \<open>A job without input records\<close>

lemma quiet_map_actions:
  "quiet acts \<Longrightarrow> map_context j = Some c \<Longrightarrow>
   run_actions map_context wr acts j =
     (None, j\<lparr>dict_store := config_writes (get_configuration c) acts (dict_store j)\<rparr>)"
  by (induction acts arbitrary: j rule: quiet.induct) simp_all

lemma quiet_reduce_actions:
  "quiet acts \<Longrightarrow> reduce_context j = Some c \<Longrightarrow>
   run_actions reduce_context wr acts j =
     (None, j\<lparr>dict_store := config_writes (get_configuration c) acts (dict_store j)\<rparr>)"
  by (induction acts arbitrary: j rule: quiet.induct) simp_all

lemma quiet_mapper_calls:
  assumes "mapper j = Some m" and "map_context j = Some c"
  shows "quiet (snd (mapper_setup m (mapper_self m))) \<Longrightarrow>
         call_mapper_setup j =
           (None, j\<lparr>mapper := Some (m\<lparr>mapper_self := fst (mapper_setup m (mapper_self m))\<rparr>),
                    dict_store := config_writes (get_configuration c)
                      (snd (mapper_setup m (mapper_self m))) (dict_store j)\<rparr>)"
    and "quiet (snd (mapper_cleanup m (mapper_self m))) \<Longrightarrow>
         call_mapper_cleanup j =
           (None, j\<lparr>mapper := Some (m\<lparr>mapper_self := fst (mapper_cleanup m (mapper_self m))\<rparr>),
                    dict_store := config_writes (get_configuration c)
                      (snd (mapper_cleanup m (mapper_self m))) (dict_store j)\<rparr>)"
  using assms
  by (simp_all add: call_mapper_setup_def call_mapper_cleanup_def quiet_map_actions
      split_beta)

lemma quiet_reducer_calls:
  assumes "reducer j = Some r" and "reduce_context j = Some c"
  shows "quiet (snd (reducer_setup r (reducer_self r))) \<Longrightarrow>
         call_reducer_setup j =
           (None, j\<lparr>reducer := Some (r\<lparr>reducer_self := fst (reducer_setup r (reducer_self r))\<rparr>),
                    dict_store := config_writes (get_configuration c)
                      (snd (reducer_setup r (reducer_self r))) (dict_store j)\<rparr>)"
    and "quiet (snd (reducer_cleanup r (reducer_self r))) \<Longrightarrow>
         call_reducer_cleanup j =
           (None, j\<lparr>reducer := Some (r\<lparr>reducer_self := fst (reducer_cleanup r (reducer_self r))\<rparr>),
                    dict_store := config_writes (get_configuration c)
                      (snd (reducer_cleanup r (reducer_self r))) (dict_store j)\<rparr>)"
  using assms
  by (simp_all add: call_reducer_setup_def call_reducer_cleanup_def quiet_reduce_actions
      split_beta)


lemma empty_map_phase:
  assumes "mapper j = Some m" and "map_context j = Some c" and "input_stream j = Some inp"
    and "get_assembled_input_stream env inp = ([], None)"
    and "quiet (snd (mapper_setup m (mapper_self m)))"
    and "quiet (snd (mapper_cleanup m (fst (mapper_setup m (mapper_self m)))))"
  shows "\<exists>store. map_phase env j =
     (None,
      j\<lparr>mapper := Some (m\<lparr>mapper_self :=
            fst (mapper_cleanup m (fst (mapper_setup m (mapper_self m))))\<rparr>),
        dict_store := store,
        map_context := Some (Stream_exit c),
        input_stream := Some (Stream_exit inp),
        shuffle_stream := ShuffleStream_exit (snd (ShuffleStream_enter (shuffle_stream j)))\<rparr>)"
proof -
  define j1 where "j1 = j\<lparr>map_context := Some (Stream_enter c),
      shuffle_stream := snd (ShuffleStream_enter (shuffle_stream j)),
      input_stream := Some (Stream_enter inp)\<rparr>"
  have en: "map_context_enter env j = (Inr ([], None), j1)"
    using assms(2,3,4)
    by (simp add: j1_def map_context_enter_def HadoopInput_enter_def
        get_assembled_input_stream_def Stream_enter_def Let_def split: option.splits)
  define m1 where "m1 = m\<lparr>mapper_self := fst (mapper_setup m (mapper_self m))\<rparr>"
  define j2 where "j2 = j1\<lparr>mapper := Some m1,
      dict_store := config_writes (get_configuration (Stream_enter c))
        (snd (mapper_setup m (mapper_self m))) (dict_store j1)\<rparr>"
  have su: "call_mapper_setup j1 = (None, j2)"
    unfolding j2_def m1_def
    by (rule quiet_mapper_calls(1)) (simp_all add: j1_def assms)
  define j3 where "j3 = j2\<lparr>mapper := Some (m1\<lparr>mapper_self := fst (mapper_cleanup m1 (mapper_self m1))\<rparr>),
      dict_store := config_writes (get_configuration (Stream_enter c))
        (snd (mapper_cleanup m1 (mapper_self m1))) (dict_store j2)\<rparr>"
  have cu: "call_mapper_cleanup j2 = (None, j3)"
    unfolding j3_def
    by (rule quiet_mapper_calls(2)) (simp_all add: j2_def j1_def m1_def assms)
  have body: "map_body ([], None) j1 = (None, j3)"
    by (simp add: map_body_def su cu)
  have ex: "map_context_exit j3 =
      (None, j3\<lparr>map_context := Some (Stream_exit (Stream_enter c)),
                input_stream := Some (Stream_exit (Stream_enter inp)),
                shuffle_stream := ShuffleStream_exit (shuffle_stream j3)\<rparr>)"
    by (simp add: map_context_exit_def HadoopInput_exit_def j3_def j2_def j1_def Let_def)
  have "map_phase env j =
      (None, j3\<lparr>map_context := Some (Stream_exit (Stream_enter c)),
                input_stream := Some (Stream_exit (Stream_enter inp)),
                shuffle_stream := ShuffleStream_exit (shuffle_stream j3)\<rparr>)"
    by (simp add: map_phase_def with_scope_def en body ex)
  then show ?thesis
    by (simp add: j3_def j2_def j1_def m1_def Stream_enter_def Stream_exit_def)
       (rule exI, rule refl)
qed


lemma empty_reduce_phase:
  assumes "reducer j = Some r" and "reduce_context j = Some c" and "output_stream j = Some out"
    and "path out = Some p" and "can_write env p"
    and "\<not> write_phase (shuffle_stream j)" and "shuffle_pair (shuffle_stream j) = []"
    and "quiet (snd (reducer_setup r (reducer_self r)))"
    and "quiet (snd (reducer_cleanup r (fst (reducer_setup r (reducer_self r)))))"
  shows "\<exists>store. reduce_phase env j =
     (None,
      j\<lparr>reducer := Some (r\<lparr>reducer_self :=
            fst (reducer_cleanup r (fst (reducer_setup r (reducer_self r))))\<rparr>),
        dict_store := store,
        reduce_context := Some (Stream_exit c),
        shuffle_stream := ShuffleStream_exit (snd (ShuffleStream_enter (shuffle_stream j))),
        output_stream := Some (out\<lparr>open_state := Some False,
          file_stream := Some \<lparr>file_closed = True, file_written = []\<rparr>\<rparr>)\<rparr>)"
proof -
  define out1 where "out1 = out\<lparr>open_state := Some True,
      file_stream := Some \<lparr>file_closed = False, file_written = []\<rparr>\<rparr>"
  define j1 where "j1 = j\<lparr>reduce_context := Some (Stream_enter c),
      output_stream := Some out1,
      shuffle_stream := snd (ShuffleStream_enter (shuffle_stream j))\<rparr>"
  have en: "reduce_context_enter env j = (Inr (Items []), j1)"
    using assms(2-7)
    by (simp add: j1_def out1_def reduce_context_enter_def HadoopOutput_enter_def
        ShuffleStream_enter_def Stream_enter_def Let_def)
  define r1 where "r1 = r\<lparr>reducer_self := fst (reducer_setup r (reducer_self r))\<rparr>"
  define j2 where "j2 = j1\<lparr>reducer := Some r1,
      dict_store := config_writes (get_configuration (Stream_enter c))
        (snd (reducer_setup r (reducer_self r))) (dict_store j1)\<rparr>"
  have su: "call_reducer_setup j1 = (None, j2)"
    unfolding j2_def r1_def
    by (rule quiet_reducer_calls(1)) (simp_all add: j1_def assms)
  define j3 where "j3 = j2\<lparr>reducer := Some (r1\<lparr>reducer_self := fst (reducer_cleanup r1 (reducer_self r1))\<rparr>),
      dict_store := config_writes (get_configuration (Stream_enter c))
        (snd (reducer_cleanup r1 (reducer_self r1))) (dict_store j2)\<rparr>"
  have cu: "call_reducer_cleanup j2 = (None, j3)"
    unfolding j3_def
    by (rule quiet_reducer_calls(2)) (simp_all add: j2_def j1_def r1_def assms)
  have body: "reduce_body (Items []) j1 = (None, j3)"
    by (simp add: reduce_body_def su cu)
  have ex: "reduce_context_exit j3 =
      (None, j3\<lparr>reduce_context := Some (Stream_exit (Stream_enter c)),
                shuffle_stream := ShuffleStream_exit (shuffle_stream j3),
                output_stream := Some (out1\<lparr>open_state := Some False,
                  file_stream := Some \<lparr>file_closed = True, file_written = []\<rparr>\<rparr>)\<rparr>)"
    by (simp add: reduce_context_exit_def HadoopOutput_exit_def Stream_exit_def
        j3_def j2_def j1_def out1_def Let_def)
  have "reduce_phase env j =
      (None, j3\<lparr>reduce_context := Some (Stream_exit (Stream_enter c)),
                shuffle_stream := ShuffleStream_exit (shuffle_stream j3),
                output_stream := Some (out1\<lparr>open_state := Some False,
                  file_stream := Some \<lparr>file_closed = True, file_written = []\<rparr>\<rparr>)\<rparr>)"
    by (simp add: reduce_phase_def with_scope_def en body ex)
  then show ?thesis
    by (simp add: j3_def j2_def j1_def r1_def out1_def Stream_enter_def Stream_exit_def)
       (rule exI, rule refl)
qed


lemma shuffle_after_write_scope:
  "\<not> write_phase (ShuffleStream_exit (snd (ShuffleStream_enter sh)))"
  "shuffle_pair sh = [] \<Longrightarrow> shuffle_pair (ShuffleStream_exit (snd (ShuffleStream_enter sh))) = []"
  by (simp_all add: ShuffleStream_exit_def ShuffleStream_enter_def Stream_enter_def
      Stream_exit_def Let_def)

text \<open>
  Claim C8, amended. A configured job whose input yields no record, whose output file can
  be opened, whose shuffle store holds no group and whose \<^verbatim>\<open>setup\<close> and \<^verbatim>\<open>cleanup\<close> hooks
  neither write nor raise: \<^verbatim>\<open>start_job\<close> returns and the job is successful; the mapper's
  state is that of \<^verbatim>\<open>cleanup\<close> after \<^verbatim>\<open>setup\<close>, each run once, and so is the reducer's; the
  map phase leaves no group in the shuffle store; nothing is written to the output file.
\<close>

theorem empty_input_job:
  assumes "start_check j = None"
    and "mapper j = Some m" and "reducer j = Some r"
    and "input_stream j = Some inp" and "output_stream j = Some out"
    and "get_assembled_input_stream env inp = ([], None)"
    and "path out = Some p" and "can_write env p"
    and "shuffle_pair (shuffle_stream j) = []"
    and "quiet (snd (mapper_setup m (mapper_self m)))"
    and "quiet (snd (mapper_cleanup m (fst (mapper_setup m (mapper_self m)))))"
    and "quiet (snd (reducer_setup r (reducer_self r)))"
    and "quiet (snd (reducer_cleanup r (fst (reducer_setup r (reducer_self r)))))"
  shows "fst (start_job env j) = None \<and>
         is_successful (snd (start_job env j)) \<and>
         map_option mapper_self (mapper (snd (start_job env j))) =
           Some (fst (mapper_cleanup m (fst (mapper_setup m (mapper_self m))))) \<and>
         map_option reducer_self (reducer (snd (start_job env j))) =
           Some (fst (reducer_cleanup r (fst (reducer_setup r (reducer_self r))))) \<and>
         shuffle_pair (shuffle_stream (snd (map_phase env j))) = [] \<and>
         map_option file_stream (output_stream (snd (start_job env j))) =
           Some (Some \<lparr>file_closed = True, file_written = []\<rparr>)"
proof -
  from assms(1) obtain mc rc where mc: "map_context j = Some mc"
    and rc: "reduce_context j = Some rc"
    by (auto simp: start_check_None)
  from empty_map_phase [OF assms(2) mc assms(4,6,10,11)]
  obtain store1 where mp: "map_phase env j =
     (None,
      j\<lparr>mapper := Some (m\<lparr>mapper_self :=
            fst (mapper_cleanup m (fst (mapper_setup m (mapper_self m))))\<rparr>),
        dict_store := store1,
        map_context := Some (Stream_exit mc),
        input_stream := Some (Stream_exit inp),
        shuffle_stream := ShuffleStream_exit (snd (ShuffleStream_enter (shuffle_stream j)))\<rparr>)"
    (is "_ = (None, ?j1)")
    by blast
  have "\<exists>store. reduce_phase env ?j1 =
     (None,
      ?j1\<lparr>reducer := Some (r\<lparr>reducer_self :=
            fst (reducer_cleanup r (fst (reducer_setup r (reducer_self r))))\<rparr>),
        dict_store := store,
        reduce_context := Some (Stream_exit rc),
        shuffle_stream := ShuffleStream_exit (snd (ShuffleStream_enter (shuffle_stream ?j1))),
        output_stream := Some (out\<lparr>open_state := Some False,
          file_stream := Some \<lparr>file_closed = True, file_written = []\<rparr>\<rparr>)\<rparr>)"
    by (rule empty_reduce_phase [where p = p])
       (simp_all add: assms rc shuffle_after_write_scope)
  then obtain store2 where rp: "reduce_phase env ?j1 =
     (None,
      ?j1\<lparr>reducer := Some (r\<lparr>reducer_self :=
            fst (reducer_cleanup r (fst (reducer_setup r (reducer_self r))))\<rparr>),
        dict_store := store2,
        reduce_context := Some (Stream_exit rc),
        shuffle_stream := ShuffleStream_exit (snd (ShuffleStream_enter (shuffle_stream ?j1))),
        output_stream := Some (out\<lparr>open_state := Some False,
          file_stream := Some \<lparr>file_closed = True, file_written = []\<rparr>\<rparr>)\<rparr>)"
    by blast
  show ?thesis
    using assms(1,9)
    by (simp add: start_job_def mp rp is_successful_def shuffle_after_write_scope)
qed

theorem empty_input_job_witness:
  "fst (start_job demo_env (demo_job counting_mapper [''empty''])) = None \<and>
   is_successful (snd (start_job demo_env (demo_job counting_mapper [''empty'']))) \<and>
   map_option mapper_self (mapper (snd (start_job demo_env (demo_job counting_mapper [''empty''])))) =
     Some [''setup'', ''cleanup''] \<and>
   map_option reducer_self (reducer (snd (start_job demo_env (demo_job counting_mapper [''empty''])))) =
     Some [''setup'', ''cleanup''] \<and>
   shuffle_pair (shuffle_stream (snd (map_phase demo_env (demo_job counting_mapper [''empty''])))) = [] \<and>
   map_option file_stream
     (output_stream (snd (start_job demo_env (demo_job counting_mapper [''empty''])))) =
     Some (Some \<lparr>file_closed = True, file_written = []\<rparr>)"
proof -
  let ?j = "demo_job counting_mapper [''empty'']"
  have 1: "start_check ?j = None" by (simp add: run_defs demo_defs)
  have 2: "mapper ?j = Some counting_mapper" "reducer ?j = Some counting_reducer"
    "input_stream ?j = Some (demo_input [''empty''])" "output_stream ?j = Some demo_output"
    by (simp_all add: demo_defs)
  have 3: "get_assembled_input_stream demo_env (demo_input [''empty'']) = ([], None)"
    by (simp add: run_defs demo_defs)
  have 4: "path demo_output = Some ''out''" "can_write demo_env ''out''"
    "shuffle_pair (shuffle_stream ?j) = []"
    by (simp_all add: demo_defs)
  have 5: "quiet (snd (mapper_setup counting_mapper (mapper_self counting_mapper)))"
    "quiet (snd (mapper_cleanup counting_mapper
        (fst (mapper_setup counting_mapper (mapper_self counting_mapper)))))"
    "quiet (snd (reducer_setup counting_reducer (reducer_self counting_reducer)))"
    "quiet (snd (reducer_cleanup counting_reducer
        (fst (reducer_setup counting_reducer (reducer_self counting_reducer)))))"
    by (simp_all add: demo_defs)
  from empty_input_job [OF 1 2 3 4 5] show ?thesis
    by (simp add: counting_mapper_def counting_reducer_def)
qed

text \<open>
  Claim C8 as stated fails for a mapper whose \<^verbatim>\<open>cleanup\<close> writes: the job is configured,
  its input yields no record, and yet the map phase leaves a group in the shuffle store and
  the reduce phase writes a record to the output.
\<close>

theorem empty_input_job_counterexample:
  "start_check (demo_job summing_mapper [''empty'']) = None \<and>
   fst (HadoopInput_enter demo_env (demo_input [''empty''])) = ([], None) \<and>
   fst (start_job demo_env (demo_job summing_mapper [''empty''])) = None \<and>
   shuffle_pair (shuffle_stream (snd (map_phase demo_env (demo_job summing_mapper [''empty''])))) =
     [(PyStr ''lines'', [PyInt 0])] \<and>
   map_option file_stream
     (output_stream (snd (start_job demo_env (demo_job summing_mapper [''empty''])))) =
     Some (Some \<lparr>file_closed = True, file_written = [(PyStr ''lines'', PyInt 1)]\<rparr>)"
  by (simp add: run_defs demo_defs Let_def)

section \<open>The configuration\<close>

lemma dict_update_distinct:
  "distinct (map fst (d @ other)) \<Longrightarrow> dict_update other d = d @ other"
proof (induction other arbitrary: d)
  case Nil
  then show ?case by (simp add: dict_update_def)
next
  case (Cons kv other)
  obtain k v where kv: "kv = (k, v)" by (cases kv)
  from Cons.prems have new: "k \<notin> fst ` set d" by (auto simp: kv)
  have upd: "AList.update k v d = d @ [(k, v)]" using new
    by (induction d) auto
  from Cons.prems have "distinct (map fst ((d @ [(k, v)]) @ other))" by (simp add: kv)
  from Cons.IH [OF this] show ?case by (simp add: dict_update_def kv upd)
qed

lemma hooks_of_leaves: "hooks_leave hooks_of" "scopes_leave hooks_of"
  by (simp_all add: hooks_leave_def scopes_leave_def hooks_of_def)

lemma config_free_hooks_cong:
  "hooks_of s = hooks_of j \<Longrightarrow> config_free_hooks s = config_free_hooks j"
  by (cases "mapper s"; cases "mapper j"; cases "reducer s"; cases "reducer j")
     (auto simp: hooks_of_def config_free_hooks_def)

lemma run_actions_store:
  assumes "\<And>k v j. dict_store (snd (wr k v j)) = dict_store j"
  shows "config_free acts \<Longrightarrow> dict_store (snd (run_actions ctx wr acts j)) = dict_store j"
proof (induction acts arbitrary: j rule: config_free.induct)
  case (3 k v acts)
  have "dict_store (snd (and_then (wr k v j) (run_actions ctx wr acts))) = dict_store j"
    by (rule and_then_leaves [where g = dict_store]) (use 3 assms in simp_all)
  then show ?case by simp
qed simp_all

lemma context_write_store:
  "dict_store (snd (map_context_write k v j)) = dict_store j"
  "dict_store (snd (reduce_context_write k v j)) = dict_store j"
  by (simp_all add: map_context_write_def reduce_context_write_def
      split: sum.splits option.splits)

lemma context_config_leaves:
  "hooks_leave (\<lambda>j. map_option get_configuration (map_context j))"
  "hooks_leave (\<lambda>j. map_option get_configuration (reduce_context j))"
  by (simp_all add: hooks_leave_def)


lemma hook_calls_store:
  assumes "config_free_hooks s"
  shows "dict_store (snd (call_mapper_setup s)) = dict_store s"
    and "dict_store (snd (call_mapper_map k v s)) = dict_store s"
    and "dict_store (snd (call_mapper_cleanup s)) = dict_store s"
    and "dict_store (snd (call_reducer_setup s)) = dict_store s"
    and "dict_store (snd (call_reducer_reduce k vs s)) = dict_store s"
    and "dict_store (snd (call_reducer_cleanup s)) = dict_store s"
  using assms
  by (auto simp: config_free_hooks_def call_mapper_setup_def call_mapper_map_def
      call_mapper_cleanup_def call_reducer_setup_def call_reducer_reduce_def
      call_reducer_cleanup_def run_actions_store context_write_store
      split: option.splits prod.splits dest: sndI)


lemma config_kept_refl: "config_kept j j"
  by (simp add: config_kept_def)

lemma config_kept_hooks: "config_kept j s \<Longrightarrow> config_free_hooks s = config_free_hooks j"
  by (rule config_free_hooks_cong) (simp add: config_kept_def)

lemma kept_hook_calls:
  assumes "config_free_hooks j" and "config_kept j s"
  shows "config_kept j (snd (call_mapper_setup s))"
    and "config_kept j (snd (call_mapper_map k v s))"
    and "config_kept j (snd (call_mapper_cleanup s))"
    and "config_kept j (snd (call_reducer_setup s))"
    and "config_kept j (snd (call_reducer_reduce k vs s))"
    and "config_kept j (snd (call_reducer_cleanup s))"
proof -
  have s: "config_free_hooks s" using assms by (simp add: config_kept_hooks)
  note store = hook_calls_store [OF s]
  note hooks = call_mapper_leaves [where g = hooks_of, OF hooks_of_leaves(1)]
    call_reducer_leaves [where g = hooks_of, OF hooks_of_leaves(1)]
  note cfg = call_mapper_leaves [where g = config, OF leaves_config(1)]
    call_reducer_leaves [where g = config, OF leaves_config(1)]
  note mc = call_mapper_leaves [where g = "\<lambda>j. map_option get_configuration (map_context j)",
      OF context_config_leaves(1)]
    call_reducer_leaves [where g = "\<lambda>j. map_option get_configuration (map_context j)",
      OF context_config_leaves(1)]
  note rc = call_mapper_leaves [where g = "\<lambda>j. map_option get_configuration (reduce_context j)",
      OF context_config_leaves(2)]
    call_reducer_leaves [where g = "\<lambda>j. map_option get_configuration (reduce_context j)",
      OF context_config_leaves(2)]
  show "config_kept j (snd (call_mapper_setup s))"
    and "config_kept j (snd (call_mapper_map k v s))"
    and "config_kept j (snd (call_mapper_cleanup s))"
    and "config_kept j (snd (call_reducer_setup s))"
    and "config_kept j (snd (call_reducer_reduce k vs s))"
    and "config_kept j (snd (call_reducer_cleanup s))"
    using assms(2) by (simp_all add: config_kept_def store hooks cfg mc rc)
qed

lemma kept_map_loop:
  assumes "config_free_hooks j"
  shows "config_kept j s \<Longrightarrow> config_kept j (snd (map_loop recs s))"
proof (induction recs arbitrary: s)
  case Nil
  then show ?case by simp
next
  case (Cons r recs)
  obtain k v where r: "r = (k, v)" by (cases r)
  have "config_kept j (snd (and_then (call_mapper_map k v s) (map_loop recs))) = True"
    by (rule and_then_leaves [where g = "config_kept j"])
       (simp_all add: Cons kept_hook_calls [OF assms])
  then show ?case by (simp add: r)
qed

lemma kept_reduce_loop:
  assumes "config_free_hooks j"
  shows "config_kept j s \<Longrightarrow> config_kept j (snd (reduce_loop groups s))"
proof (induction groups arbitrary: s)
  case Nil
  then show ?case by simp
next
  case (Cons r groups)
  obtain k vs where r: "r = (k, vs)" by (cases r)
  have "config_kept j (snd (and_then (call_reducer_reduce k vs s) (reduce_loop groups))) = True"
    by (rule and_then_leaves [where g = "config_kept j"])
       (simp_all add: Cons kept_hook_calls [OF assms])
  then show ?case by (simp add: r)
qed

lemma kept_map_body:
  assumes "config_free_hooks j" and "config_kept j s"
  shows "config_kept j (snd (map_body gen s))"
proof -
  have 1: "config_kept j (snd (and_then (call_mapper_setup s) (map_loop (fst gen)))) = True"
    by (rule and_then_leaves [where g = "config_kept j"])
       (simp_all add: assms kept_hook_calls kept_map_loop)
  have 2: "config_kept j (snd (and_then (and_then (call_mapper_setup s) (map_loop (fst gen)))
                     (\<lambda>j'. (snd gen, j')))) = True"
    by (rule and_then_leaves [where g = "config_kept j"]) (simp_all add: 1)
  have "config_kept j (snd (map_body gen s)) = True" unfolding map_body_def
    by (rule and_then_leaves [where g = "config_kept j"])
       (simp_all add: 2 assms kept_hook_calls)
  then show ?thesis by simp
qed

lemma kept_reduce_body:
  assumes "config_free_hooks j" and "config_kept j s"
  shows "config_kept j (snd (reduce_body h s))"
proof -
  have 1: "config_kept j (snd (and_then (call_reducer_setup s)
                     (case h of Self \<Rightarrow> (\<lambda>j'. (Some TypeError, j'))
                      | Items groups \<Rightarrow> reduce_loop groups))) = True"
    by (rule and_then_leaves [where g = "config_kept j"])
       (simp_all add: assms kept_hook_calls kept_reduce_loop split: shuffle_handle.splits)
  have "config_kept j (snd (reduce_body h s)) = True" unfolding reduce_body_def
    by (rule and_then_leaves [where g = "config_kept j"])
       (simp_all add: 1 assms kept_hook_calls)
  then show ?thesis by simp
qed

lemma leaves_store: "scopes_leave dict_store"
  by (simp add: scopes_leave_def)

lemma map_scope_context_config:
  "map_option get_configuration (map_context (snd (map_context_enter env s))) =
     map_option get_configuration (map_context s)"
  "map_option get_configuration (reduce_context (snd (map_context_enter env s))) =
     map_option get_configuration (reduce_context s)"
  "map_option get_configuration (map_context (snd (map_context_exit s))) =
     map_option get_configuration (map_context s)"
  "map_option get_configuration (reduce_context (snd (map_context_exit s))) =
     map_option get_configuration (reduce_context s)"
  by (cases "map_context s"; cases "input_stream s";
      simp add: map_context_enter_def map_context_exit_def get_configuration_def
        Stream_enter_def Stream_exit_def Let_def split_beta)+

lemma reduce_scope_context_config:
  "map_option get_configuration (map_context (snd (reduce_context_enter env s))) =
     map_option get_configuration (map_context s)"
  "map_option get_configuration (reduce_context (snd (reduce_context_enter env s))) =
     map_option get_configuration (reduce_context s)"
  "map_option get_configuration (map_context (snd (reduce_context_exit s))) =
     map_option get_configuration (map_context s)"
  "map_option get_configuration (reduce_context (snd (reduce_context_exit s))) =
     map_option get_configuration (reduce_context s)"
  by (cases "reduce_context s"; cases "output_stream s";
      simp add: reduce_context_enter_def reduce_context_exit_def get_configuration_def
        Stream_enter_def Stream_exit_def Let_def split_beta split: option.splits)+

lemma kept_scope_steps:
  assumes "config_kept j s"
  shows "config_kept j (snd (map_context_enter env s))"
    and "config_kept j (snd (map_context_exit s))"
    and "config_kept j (snd (reduce_context_enter env s))"
    and "config_kept j (snd (reduce_context_exit s))"
  using assms
  by (simp_all add: config_kept_def map_scope_context_config reduce_scope_context_config
      map_context_enter_leaves map_context_exit_leaves reduce_context_enter_leaves
      reduce_context_exit_leaves hooks_of_leaves leaves_config leaves_store)

lemma kept_phases:
  assumes "config_free_hooks j" and "config_kept j s"
  shows "config_kept j (snd (map_phase env s))"
    and "config_kept j (snd (reduce_phase env s))"
proof -
  have "config_kept j (snd (map_phase env s)) = True" unfolding map_phase_def
    by (rule with_scope_leaves [where g = "config_kept j"])
       (simp_all add: assms kept_scope_steps kept_map_body)
  then show "config_kept j (snd (map_phase env s))" by simp
  have "config_kept j (snd (reduce_phase env s)) = True" unfolding reduce_phase_def
    by (rule with_scope_leaves [where g = "config_kept j"])
       (simp_all add: assms kept_scope_steps kept_reduce_body)
  then show "config_kept j (snd (reduce_phase env s))" by simp
qed

lemma kept_start_job:
  assumes "config_free_hooks j"
  shows "config_kept j (snd (start_job env j))"
proof -
  have 1: "config_kept j (snd (map_phase env j))"
    by (rule kept_phases [OF assms config_kept_refl])
  have 2: "config_kept j (snd (reduce_phase env (snd (map_phase env j))))"
    by (rule kept_phases [OF assms 1])
  obtain x j1 where p1: "map_phase env j = (x, j1)" by (cases "map_phase env j")
  obtain y j2 where p2: "reduce_phase env j1 = (y, j2)" by (cases "reduce_phase env j1")
  from 1 2 p1 p2 have "config_kept j j1" "config_kept j j2" by simp_all
  then show ?thesis
    by (auto simp: start_job_cases p1 p2 config_kept_refl config_kept_def hooks_of_def
        split: option.splits)
qed


text \<open>
  Claim C3, amended. When no hook assigns into the configuration, \<^verbatim>\<open>start_job\<close> leaves
  every dictionary of the store as it was, and the job and both contexts keep the address
  of the same dictionary. \<^verbatim>\<open>HadoopJob(config)\<close> makes that dictionary: a new object, with
  the items of the caller's dictionary, which stays as it was. \<^verbatim>\<open>get_configuration\<close> of
  either context returns the address of the job's own dictionary, not a copy or a view.
\<close>

theorem configuration_frame:
  assumes "config_free_hooks j"
  shows "dict_store (snd (start_job env j)) = dict_store j \<and>
         config (snd (start_job env j)) = config j \<and>
         map_option get_configuration (map_context (snd (start_job env j))) =
           map_option get_configuration (map_context j) \<and>
         map_option get_configuration (reduce_context (snd (start_job env j))) =
           map_option get_configuration (reduce_context j) \<and>
         config (HadoopJob_init store cfg :: ('u, 'w, 'l, 'a, 'o) HadoopJob) = length store \<and>
         take (length store) (dict_store (HadoopJob_init store cfg :: ('u, 'w, 'l, 'a, 'o) HadoopJob))
           = store \<and>
         (a < length store \<and> distinct (map fst (store ! a)) \<longrightarrow>
            dict_store (HadoopJob_init store (Some a) :: ('u, 'w, 'l, 'a, 'o) HadoopJob)
              ! length store = store ! a) \<and>
         map_option get_configuration (map_context (set_input_stream inp j)) = Some (config j) \<and>
         map_option get_configuration (reduce_context (set_output_stream out j)) =
           Some (config j)"
proof -
  have "config_kept j (snd (start_job env j))"
    using assms by (rule kept_start_job)
  moreover have "distinct (map fst (store ! a)) \<Longrightarrow> dict_update (store ! a) [] = store ! a"
    using dict_update_distinct [of "[]" "store ! a"] by simp
  ultimately show ?thesis
    by (simp add: config_kept_def HadoopJob_init_def set_input_stream_def set_output_stream_def
        HadoopContext_init_def get_configuration_def nth_append)
qed

theorem configuration_frame_witness:
  "config_free_hooks (demo_job counting_mapper [''f1'', ''f2'']) \<and>
   dict_store (snd (start_job demo_env (demo_job counting_mapper [''f1'', ''f2'']))) =
     [[(PyStr ''mode'', PyStr ''fast'')], [(PyStr ''mode'', PyStr ''fast'')]] \<and>
   config (snd (start_job demo_env (demo_job counting_mapper [''f1'', ''f2'']))) = 1 \<and>
   map_option get_configuration
     (map_context (snd (start_job demo_env (demo_job counting_mapper [''f1'', ''f2''])))) = Some 1 \<and>
   map_option get_configuration
     (reduce_context (snd (start_job demo_env (demo_job counting_mapper [''f1'', ''f2''])))) =
     Some 1 \<and>
   dict_store (HadoopJob_init [[(PyStr ''mode'', PyStr ''fast'')]] (Some 0)
       :: (string list, string list, string, pyobj, pyobj \<times> pyobj) HadoopJob) ! 1 =
     [(PyStr ''mode'', PyStr ''fast'')]"
proof -
  let ?j = "demo_job counting_mapper [''f1'', ''f2'']"
  have h: "config_free_hooks ?j"
    by (simp add: config_free_hooks_def demo_defs)
  have j: "dict_store ?j = [[(PyStr ''mode'', PyStr ''fast'')], [(PyStr ''mode'', PyStr ''fast'')]]"
    "config ?j = 1" "map_option get_configuration (map_context ?j) = Some 1"
    "map_option get_configuration (reduce_context ?j) = Some 1"
    by (simp_all add: demo_defs get_configuration_def)
  note f = configuration_frame [OF h, of demo_env "[[(PyStr ''mode'', PyStr ''fast'')]]" _ 0]
  have d: "(0::nat) < length [[(PyStr ''mode'', PyStr ''fast'')]] \<and>
      distinct (map fst ([[(PyStr ''mode'', PyStr ''fast'')]] ! 0))"
    by simp
  from f [THEN conjunct1] f [THEN conjunct2, THEN conjunct1]
    f [THEN conjunct2, THEN conjunct2, THEN conjunct1]
    f [THEN conjunct2, THEN conjunct2, THEN conjunct2, THEN conjunct1]
    f [THEN conjunct2, THEN conjunct2, THEN conjunct2, THEN conjunct2, THEN conjunct2,
       THEN conjunct2, THEN conjunct1, THEN mp, OF d] h j
  show ?thesis by simp
qed

text \<open>
  Claim C3 as stated fails: both contexts return the job's own dictionary, and a mapper
  whose \<^verbatim>\<open>setup\<close> assigns into what \<^verbatim>\<open>get_configuration\<close> returned changes the
  configuration of the job for everything that runs after it.
\<close>

theorem configuration_frame_counterexample:
  "start_check (demo_job configuring_mapper [''empty'']) = None \<and>
   map_option get_configuration (map_context (demo_job configuring_mapper [''empty''])) =
     Some (config (demo_job configuring_mapper [''empty''])) \<and>
   map_option get_configuration (reduce_context (demo_job configuring_mapper [''empty''])) =
     Some (config (demo_job configuring_mapper [''empty''])) \<and>
   dict_store (demo_job configuring_mapper [''empty''])
     ! config (demo_job configuring_mapper [''empty'']) = [(PyStr ''mode'', PyStr ''fast'')] \<and>
   fst (start_job demo_env (demo_job configuring_mapper [''empty''])) = None \<and>
   dict_store (snd (start_job demo_env (demo_job configuring_mapper [''empty''])))
     ! config (demo_job configuring_mapper [''empty'']) = [(PyStr ''mode'', PyStr ''slow'')]"
  by (simp add: run_defs demo_defs Let_def)

end
